theory Spec2Isabelle
  imports Complex_Main "HOL-Library.Multiset" "HOL-Library.Sublist"
begin

section \<open>Data shared by the two builders\<close>

text \<open>
  The shape handed to both builders is \<^verbatim>\<open>{ vertices, faces, cells }\<close>: a list of 4D
  vertices, a list of faces (each a list of vertex indices) and a list of cells (each a
  list of face indices). The builders never look inside a vertex, so its type is a
  parameter. A 3D point is the array \<^verbatim>\<open>[x, y, z]\<close>. A JavaScript number is a double;
  the finite doubles are modelled by the reals they denote.
\<close>

type_synonym point = "real \<times> real \<times> real"

record 'v shape =
  vertices :: "'v list"
  faces :: "nat list list"
  cells :: "nat list list"

text \<open>
  The projector (\<^verbatim>\<open>hyperRenderer\<close>) is not part of the sources; the builders use its
  \<^verbatim>\<open>project\<close> and \<^verbatim>\<open>slice\<close> methods only. An array read out of range gives
  \<^verbatim>\<open>undefined\<close> in JavaScript, and \<^verbatim>\<open>slice\<close> is handed whatever the read gave, so
  its arguments are optional vertices. Its result is a point or a falsy value.
\<close>

record 'v hyperRenderer =
  project :: "'v \<Rightarrow> point"
  slice :: "'v option \<Rightarrow> 'v option \<Rightarrow> point option"

text \<open>
  Errors are values: \<open>Inl\<close> is a thrown exception, and \<open>and_then\<close> runs the next
  statement when the one before it did not throw.
\<close>

datatype js_error = TypeError | RangeError

definition and_then :: "js_error + 'a \<Rightarrow> ('a \<Rightarrow> js_error + 'b) \<Rightarrow> js_error + 'b" where
  "and_then m f = (case m of Inl err \<Rightarrow> Inl err | Inr x \<Rightarrow> f x)"

definition js_nth :: "'a list \<Rightarrow> nat \<Rightarrow> 'a option" where
  "js_nth xs n = (if n < length xs then Some (xs ! n) else None)"

text \<open>
  \<^verbatim>\<open>cell.map(faceIndex => this.shape.faces[faceIndex])\<close>, in both builders: a face
  index out of range gives \<^verbatim>\<open>undefined\<close>.
\<close>

definition cell_faces :: "'v shape \<Rightarrow> nat list \<Rightarrow> nat list option list" where
  "cell_faces sh cell = map (js_nth (faces sh)) cell"

section \<open>HyperSliceGeometry: loop reconstruction\<close>

text \<open>
  The subtraction \<^verbatim>\<open>c - dangle[ci]\<close> of line 98 is a subtraction of doubles: its result
  is the exact difference rounded to the nearest double, a tie going to the even
  significand. \<open>exponent64 x\<close> is the binary exponent of \<open>x\<close> as a double, the largest
  \<open>e\<close> from \<open>-1022\<close> to \<open>1023\<close> with \<open>2\<^sup>e \<le> \<bar>x\<bar>\<close>, and \<open>-1022\<close> for the
  subnormal numbers and zero. A double of that exponent is a multiple of
  \<open>2\<^sup>e\<^sup>-\<^sup>5\<^sup>2\<close>, and \<open>round64 x\<close> is the multiple nearest to \<open>x\<close>. A result of
  magnitude \<open>2\<^sup>1\<^sup>0\<^sup>2\<^sup>4\<close> or more stands for an infinity; like an infinity, it is not
  below any tolerance.
\<close>

definition round_even :: "real \<Rightarrow> int" where
  "round_even x =
     (let f = \<lfloor>x\<rfloor> in
      if x - of_int f < 1 / 2 then f
      else if 1 / 2 < x - of_int f then f + 1
      else if even f then f else f + 1)"

definition exponent64 :: "real \<Rightarrow> int" where
  "exponent64 x = foldl (\<lambda>k e. if 2 powi e \<le> \<bar>x\<bar> then e else k) (- 1022) [- 1022..1023]"

definition round64 :: "real \<Rightarrow> real" where
  "round64 x = (let u = 2 powi (exponent64 x - 52) in of_int (round_even (x / u)) * u)"

text \<open>
  \<^verbatim>\<open>const epsilon = 1e-8\<close>: the double that the literal denotes,
  \<open>3022314549036573 \<times> 2\<^sup>-\<^sup>7\<^sup>8\<close>, a little more than \<open>10\<^sup>-\<^sup>8\<close>.
\<close>

definition epsilon :: real where
  "epsilon = 3022314549036573 / 2 ^ 78"

text \<open>\<^verbatim>\<open>p.every((c, ci) => Math.abs(c - dangle[ci]) < epsilon)\<close> on two 3D points.\<close>

fun near :: "point \<Rightarrow> point \<Rightarrow> bool" where
  "near (c0, c1, c2) (d0, d1, d2) =
     (\<bar>round64 (c0 - d0)\<bar> < epsilon \<and> \<bar>round64 (c1 - d1)\<bar> < epsilon \<and>
      \<bar>round64 (c2 - d2)\<bar> < epsilon)"

text \<open>
  The \<^verbatim>\<open>for\<close> loop of lines 96 to 108: it walks \<^verbatim>\<open>pairs\<close> from index 0, and at the
  first pair one of whose two first points matches \<^verbatim>\<open>dangle\<close> it splices that pair out,
  pushes the pair's other point on \<^verbatim>\<open>linkedPairs\<close> and breaks. The result is the two
  arrays after the loop. Every element of \<^verbatim>\<open>pairs\<close> has passed the filter
  \<^verbatim>\<open>pair.length > 1\<close> of line 88, so the reads of its first two points are in range.
\<close>

fun scan :: "point \<Rightarrow> point list list \<Rightarrow> point list \<Rightarrow> point list list \<times> point list" where
  "scan dangle [] linkedPairs = ([], linkedPairs)"
| "scan dangle (pair # rest) linkedPairs =
     (let p1 = pair ! 0; p2 = pair ! 1 in
      if near p1 dangle then (rest, linkedPairs @ [p2])
      else if near p2 dangle then (rest, linkedPairs @ [p1])
      else (case scan dangle rest linkedPairs of
              (pairs', linkedPairs') \<Rightarrow> (pair # pairs', linkedPairs')))"

text \<open>
  The \<^verbatim>\<open>while (pairs.length)\<close> loop of lines 93 to 113. The outer option is
  termination of the loop; inside, \<open>None\<close> is the \<^verbatim>\<open>return\<close> of line 111 (the cell is
  given up) and \<open>Some chain\<close> is the final \<^verbatim>\<open>linkedPairs\<close>.
\<close>

partial_function (option) link_loop ::
  "point list list \<Rightarrow> point list \<Rightarrow> point list option option" where
  "link_loop pairs linkedPairs =
     (if pairs = [] then Some (Some linkedPairs)
      else (let lp = length pairs; dangle = last linkedPairs in
            case scan dangle pairs linkedPairs of
              (pairs', linkedPairs') \<Rightarrow>
                if lp = length pairs' then Some None
                else link_loop pairs' linkedPairs'))"

section \<open>HyperSliceGeometry: buffers and update\<close>

text \<open>
  A \<^verbatim>\<open>BufferGeometry\<close> of the rendering engine, as far as the builders use it: the
  \<^verbatim>\<open>position\<close> array, the \<^verbatim>\<open>color\<close> array (present when colours are used), the
  index set by \<^verbatim>\<open>setIndex\<close>, the \<^verbatim>\<open>normal\<close> attribute written by
  \<^verbatim>\<open>computeVertexNormals\<close> and the range set by \<^verbatim>\<open>setDrawRange\<close>. The arrays are
  \<^verbatim>\<open>Float32Array\<close>s: a store rounds the number (\<open>fround\<close>) and a store past the end
  is ignored, which is what \<open>xs[n := v]\<close> does. The engine's rounding and its normal
  computation are parameters.
\<close>

record bufferGeometry =
  position :: "real list"
  color :: "real list option"
  index :: "int list option"
  normal :: "real list option"
  drawRange :: "(nat \<times> nat) option"

record engine =
  fround :: "real \<Rightarrow> real"
  computeVertexNormals :: "real list \<Rightarrow> int list option \<Rightarrow> real list"

record options =
  useColors :: bool
  useFaces :: bool
  useEdges :: bool
  usePoints :: bool

definition initGeometry :: "options \<Rightarrow> nat \<Rightarrow> bufferGeometry" where
  "initGeometry opts n =
     \<lparr>position = replicate (3 * n) 0,
      color = (if useColors opts then Some (replicate (3 * n) 0) else None),
      index = None, normal = None, drawRange = None\<rparr>"

text \<open>
  One store \<^verbatim>\<open>array[k] = v\<close> into a typed array. The array comes with the record of
  the indices stored at so far, in the order of the stores; the store itself never
  fails. The three stores of a point or a colour at vertex \<open>n\<close> go to \<open>3 * n\<close>,
  \<open>3 * n + 1\<close> and \<open>3 * n + 2\<close>.
\<close>

definition store :: "engine \<Rightarrow> nat \<Rightarrow> real \<Rightarrow> real list \<times> nat list \<Rightarrow> real list \<times> nat list" where
  "store e k v al = (case al of (arr, stored) \<Rightarrow> (arr[k := fround e v], stored @ [k]))"

definition store3 :: "engine \<Rightarrow> nat \<Rightarrow> point \<Rightarrow> real list \<times> nat list \<Rightarrow> real list \<times> nat list" where
  "store3 e n p al =
     (case p of (x, y, z) \<Rightarrow>
        store e (3 * n + 2) z (store e (3 * n + 1) y (store e (3 * n) x al)))"

definition put3 :: "engine \<Rightarrow> nat \<Rightarrow> point \<Rightarrow> real list \<Rightarrow> real list" where
  "put3 e n p arr = fst (store3 e n p (arr, []))"

record 'v hyperSliceGeometry =
  sg_shape :: "'v shape"
  sg_options :: options
  geometry :: "bufferGeometry option"
  edgeGeometry :: "bufferGeometry option"
  pointGeometry :: "bufferGeometry option"

text \<open>
  The locals of one \<^verbatim>\<open>update()\<close> call (\<^verbatim>\<open>i\<close>, \<^verbatim>\<open>indices\<close>, \<^verbatim>\<open>edgeIndices\<close>), the
  three geometries it writes, and the indices its stores into the typed arrays went to.
\<close>

record frame =
  fr_i :: nat
  fr_indices :: "nat list"
  fr_edgeIndices :: "nat list"
  fr_geometry :: "bufferGeometry option"
  fr_edgeGeometry :: "bufferGeometry option"
  fr_pointGeometry :: "bufferGeometry option"
  fr_stored :: "nat list"

text \<open>
  Lines 81 to 87: the edges of a face (each vertex with its cyclic successor), the call
  of \<^verbatim>\<open>slice\<close> on each, and the truthy results. The second component is the list of
  argument pairs \<^verbatim>\<open>slice\<close> was called on.
\<close>

definition face_edges :: "'v list \<Rightarrow> nat list \<Rightarrow> ('v option \<times> 'v option) list" where
  "face_edges vs face =
     map (\<lambda>(verticeIndex, faceVerticeIndex).
            (js_nth vs verticeIndex,
             js_nth vs (face ! ((faceVerticeIndex + 1) mod length face))))
         (zip face [0..<length face])"

definition face_pair ::
  "'v hyperRenderer \<Rightarrow> 'v list \<Rightarrow> nat list \<Rightarrow> point list \<times> ('v option \<times> 'v option) list" where
  "face_pair r vs face =
     (let edges = face_edges vs face;
          sliced = map (\<lambda>(p1, p2). slice r p1 p2) edges
      in (map the (filter (\<lambda>x. x \<noteq> None) sliced), edges))"

text \<open>
  Lines 77 to 89: the pairs of a cell's faces, kept when they hold more than one point,
  with the calls made to \<^verbatim>\<open>slice\<close>. A face index out of range makes \<^verbatim>\<open>face.map\<close> a
  call on \<^verbatim>\<open>undefined\<close>, a TypeError, after the faces before it have been sliced.
\<close>

fun cell_pairs ::
  "'v hyperRenderer \<Rightarrow> 'v list \<Rightarrow> nat list option list \<Rightarrow>
     (js_error + point list list) \<times> ('v option \<times> 'v option) list" where
  "cell_pairs r vs [] = (Inr [], [])"
| "cell_pairs r vs (None # fs) = (Inl TypeError, [])"
| "cell_pairs r vs (Some face # fs) =
     (case face_pair r vs face of (pair, calls) \<Rightarrow>
      case cell_pairs r vs fs of (rest, calls') \<Rightarrow>
        (case rest of
           Inl err \<Rightarrow> Inl err
         | Inr pairs \<Rightarrow> Inr (if length pair > 1 then pair # pairs else pairs),
         calls @ calls'))"

text \<open>
  The colour getter of the slice builder, \<^verbatim>\<open>colorGetter({cell, pair, point, type}).toArray()\<close>,
  is a parameter: cell index, index in the chain, the point and the type tag give
  \<^verbatim>\<open>[r, g, b]\<close>.
\<close>

type_synonym pairColor = "nat \<Rightarrow> nat \<Rightarrow> point \<Rightarrow> string \<Rightarrow> point"

text \<open>
  The stores of one point into one geometry, as in lines 129 to 142: the colour when
  colours are used, then the position. \<^verbatim>\<open>this.geometry.attributes\<close> is a TypeError
  when the geometry is missing, and \<^verbatim>\<open>attributes.color.array\<close> is one when the
  geometry has no colour attribute.
\<close>

definition write_vertex ::
  "engine \<Rightarrow> options \<Rightarrow> point \<Rightarrow> nat \<Rightarrow> point \<Rightarrow> bufferGeometry option \<times> nat list \<Rightarrow>
     js_error + bufferGeometry option \<times> nat list" where
  "write_vertex e opts rgb n p gl =
     (case gl of (og, stored) \<Rightarrow>
      case og of
        None \<Rightarrow> Inl TypeError
      | Some g \<Rightarrow>
          and_then
            (if useColors opts
             then (case color g of
                     None \<Rightarrow> Inl TypeError
                   | Some c \<Rightarrow>
                       (case store3 e n rgb (c, stored) of
                          (c', stored') \<Rightarrow> Inr (g\<lparr>color := Some c'\<rparr>, stored')))
             else Inr (g, stored))
            (\<lambda>(g', stored').
               case store3 e n p (position g', stored') of
                 (arr, stored'') \<Rightarrow> Inr (Some (g'\<lparr>position := arr\<rparr>), stored'')))"

text \<open>One of the three blocks \<^verbatim>\<open>if (this.useFaces) { ... }\<close> of lines 128 to 175.\<close>

definition emit_block ::
  "bool \<Rightarrow> engine \<Rightarrow> options \<Rightarrow> point \<Rightarrow> nat \<Rightarrow> point \<Rightarrow> bufferGeometry option \<times> nat list \<Rightarrow>
     js_error + bufferGeometry option \<times> nat list" where
  "emit_block flag e opts rgb n p gl = (if flag then write_vertex e opts rgb n p gl else Inr gl)"

text \<open>Lines 127 to 177, the body for one point of the chain.\<close>

definition emit_point ::
  "engine \<Rightarrow> options \<Rightarrow> pairColor \<Rightarrow> nat \<Rightarrow> frame \<Rightarrow> point \<times> nat \<Rightarrow> js_error + frame" where
  "emit_point e opts cg cellIndex fr = (\<lambda>(p, pairIndex).
     and_then (emit_block (useFaces opts) e opts (cg cellIndex pairIndex p ''face-pair'')
                 (fr_i fr) p (fr_geometry fr, fr_stored fr))
       (\<lambda>(g1, stored1).
     and_then (emit_block (useEdges opts) e opts (cg cellIndex pairIndex p ''edge-pair'')
                 (fr_i fr) p (fr_edgeGeometry fr, stored1))
       (\<lambda>(g2, stored2).
     and_then (emit_block (usePoints opts) e opts (cg cellIndex pairIndex p ''vertex-pair'')
                 (fr_i fr) p (fr_pointGeometry fr, stored2))
       (\<lambda>(g3, stored3).
          Inr (fr\<lparr>fr_geometry := g1, fr_edgeGeometry := g2, fr_pointGeometry := g3,
                  fr_stored := stored3, fr_i := fr_i fr + 1\<rparr>)))))"

text \<open>\<^verbatim>\<open>linkedPairs.forEach(...)\<close>: the points in their order, until one throws.\<close>

fun emit_points ::
  "engine \<Rightarrow> options \<Rightarrow> pairColor \<Rightarrow> nat \<Rightarrow> frame \<Rightarrow> (point \<times> nat) list \<Rightarrow> js_error + frame" where
  "emit_points e opts cg cellIndex fr [] = Inr fr"
| "emit_points e opts cg cellIndex fr (x # xs) =
     and_then (emit_point e opts cg cellIndex fr x)
       (\<lambda>fr'. emit_points e opts cg cellIndex fr' xs)"

text \<open>
  Lines 115 to 177: what a closed chain adds to the frame.
  \<^verbatim>\<open>new Array(linkedPairs.length - 2)\<close> is a RangeError when the length is negative.
\<close>

definition emit_cell ::
  "engine \<Rightarrow> options \<Rightarrow> pairColor \<Rightarrow> nat \<Rightarrow> point list \<Rightarrow> frame \<Rightarrow> js_error + frame" where
  "emit_cell e opts cg cellIndex linkedPairs fr =
     (let i0 = fr_i fr; n = length linkedPairs in
      if useFaces opts \<and> n < 2 then Inl RangeError
      else
        (let fr1 = (if useFaces opts
                    then fr\<lparr>fr_indices := fr_indices fr @
                             concat (map (\<lambda>j. [i0, i0 + j + 1, i0 + j + 2]) [0..<n - 2])\<rparr>
                    else fr);
             fr2 = (if useEdges opts
                    then fr1\<lparr>fr_edgeIndices := fr_edgeIndices fr1 @
                             concat (map (\<lambda>j. [i0 + j, i0 + ((j + 1) mod n)]) [0..<n])\<rparr>
                    else fr1)
         in emit_points e opts cg cellIndex fr2 (zip linkedPairs [0..<n])))"

text \<open>
  Lines 69 to 179, the body for one cell: what it leaves (an error or the frame), with
  the calls it made to \<^verbatim>\<open>slice\<close>. The outer option is termination of the
  \<^verbatim>\<open>while\<close> loop.
\<close>

definition slice_cell ::
  "engine \<Rightarrow> options \<Rightarrow> pairColor \<Rightarrow> 'v hyperRenderer \<Rightarrow> 'v shape \<Rightarrow> frame \<Rightarrow>
     nat list \<times> nat \<Rightarrow> ((js_error + frame) \<times> ('v option \<times> 'v option) list) option" where
  "slice_cell e opts cg r sh fr = (\<lambda>(cell, cellIndex).
     case cell_pairs r (vertices sh) (cell_faces sh cell) of (res, calls) \<Rightarrow>
     case res of
       Inl err \<Rightarrow> Some (Inl err, calls)
     | Inr pairs \<Rightarrow>
         if length pairs > 2 then
           (case link_loop (tl pairs) (hd pairs) of
              None \<Rightarrow> None
            | Some None \<Rightarrow> Some (Inr fr, calls)
            | Some (Some linkedPairs) \<Rightarrow> Some (emit_cell e opts cg cellIndex linkedPairs fr, calls))
         else Some (Inr fr, calls))"

text \<open>\<^verbatim>\<open>cells.forEach(...)\<close>: the cells in their order, until one throws.\<close>

fun slice_cells ::
  "engine \<Rightarrow> options \<Rightarrow> pairColor \<Rightarrow> 'v hyperRenderer \<Rightarrow> 'v shape \<Rightarrow> frame \<Rightarrow>
     (nat list \<times> nat) list \<Rightarrow> ((js_error + frame) \<times> ('v option \<times> 'v option) list) option" where
  "slice_cells e opts cg r sh fr [] = Some (Inr fr, [])"
| "slice_cells e opts cg r sh fr (c # cs) =
     (case slice_cell e opts cg r sh fr c of
        None \<Rightarrow> None
      | Some (res, calls) \<Rightarrow>
          (case res of
             Inl err \<Rightarrow> Some (Inl err, calls)
           | Inr fr' \<Rightarrow>
               (case slice_cells e opts cg r sh fr' cs of
                  None \<Rightarrow> None
                | Some (res', calls') \<Rightarrow> Some (res', calls @ calls'))))"

text \<open>
  One of the three blocks of lines 180 to 202: the geometry is dereferenced, and so is
  its colour attribute when colours are used; \<open>attrs\<close> is what the block sets.
\<close>

definition finish_block ::
  "options \<Rightarrow> bool \<Rightarrow> (bufferGeometry \<Rightarrow> bufferGeometry) \<Rightarrow> bufferGeometry option \<Rightarrow>
     js_error + bufferGeometry option" where
  "finish_block opts flag attrs og =
     (if flag
      then (case og of
              None \<Rightarrow> Inl TypeError
            | Some g \<Rightarrow>
                if useColors opts \<and> color g = None then Inl TypeError else Inr (Some (attrs g)))
      else Inr og)"

text \<open>Lines 180 to 202.\<close>

definition finish ::
  "engine \<Rightarrow> 'v hyperSliceGeometry \<Rightarrow> frame \<Rightarrow> js_error + 'v hyperSliceGeometry" where
  "finish e b fr =
     and_then (finish_block (sg_options b) (useFaces (sg_options b))
                 (\<lambda>g. g\<lparr>index := Some (map int (fr_indices fr)),
                        normal := Some (computeVertexNormals e (position g)
                                          (Some (map int (fr_indices fr))))\<rparr>)
                 (fr_geometry fr))
       (\<lambda>g1.
     and_then (finish_block (sg_options b) (useEdges (sg_options b))
                 (\<lambda>g. g\<lparr>index := Some (map int (fr_edgeIndices fr))\<rparr>) (fr_edgeGeometry fr))
       (\<lambda>g2.
     and_then (finish_block (sg_options b) (usePoints (sg_options b))
                 (\<lambda>g. g\<lparr>drawRange := Some (0, fr_i fr)\<rparr>) (fr_pointGeometry fr))
       (\<lambda>g3. Inr (b\<lparr>geometry := g1, edgeGeometry := g2, pointGeometry := g3\<rparr>))))"

definition start_frame :: "'v hyperSliceGeometry \<Rightarrow> frame" where
  "start_frame b =
     \<lparr>fr_i = 0, fr_indices = [], fr_edgeIndices = [],
      fr_geometry = geometry b, fr_edgeGeometry = edgeGeometry b,
      fr_pointGeometry = pointGeometry b, fr_stored = []\<rparr>"

definition run_cells ::
  "engine \<Rightarrow> pairColor \<Rightarrow> 'v hyperRenderer \<Rightarrow> 'v hyperSliceGeometry \<Rightarrow>
     ((js_error + frame) \<times> ('v option \<times> 'v option) list) option" where
  "run_cells e cg r b =
     slice_cells e (sg_options b) cg r (sg_shape b) (start_frame b)
       (zip (cells (sg_shape b)) [0..<length (cells (sg_shape b))])"

text \<open>
  \<^verbatim>\<open>HyperSliceGeometry.update()\<close>: an error or the builder after the call, with the
  arguments of the calls it made to \<^verbatim>\<open>slice\<close>, whether it threw or returned.
\<close>

definition sg_update ::
  "engine \<Rightarrow> pairColor \<Rightarrow> 'v hyperRenderer \<Rightarrow> 'v hyperSliceGeometry \<Rightarrow>
     ((js_error + 'v hyperSliceGeometry) \<times> ('v option \<times> 'v option) list) option" where
  "sg_update e cg r b =
     (case run_cells e cg r b of
        None \<Rightarrow> None
      | Some (res, calls) \<Rightarrow>
          (case res of
             Inl err \<Rightarrow> Some (Inl err, calls)
           | Inr fr \<Rightarrow> Some (finish e b fr, calls)))"

text \<open>The constructor of \<^verbatim>\<open>HyperSliceGeometry\<close>, lines 19 to 41.\<close>

definition maxPositions :: "'v shape \<Rightarrow> nat" where
  "maxPositions sh = 2 * foldl (\<lambda>rv c. rv + length c) 0 (cells sh)"

definition alloc :: "'v shape \<Rightarrow> options \<Rightarrow> 'v hyperSliceGeometry" where
  "alloc sh opts =
     \<lparr>sg_shape = sh, sg_options = opts,
      geometry = (if useFaces opts then Some (initGeometry opts (maxPositions sh)) else None),
      edgeGeometry = (if useEdges opts then Some (initGeometry opts (maxPositions sh)) else None),
      pointGeometry = (if usePoints opts then Some (initGeometry opts (maxPositions sh)) else None)\<rparr>"

definition new_HyperSliceGeometry ::
  "engine \<Rightarrow> pairColor \<Rightarrow> 'v hyperRenderer \<Rightarrow> 'v shape \<Rightarrow> options \<Rightarrow>
     ((js_error + 'v hyperSliceGeometry) \<times> ('v option \<times> 'v option) list) option" where
  "new_HyperSliceGeometry e cg r sh opts = sg_update e cg r (alloc sh opts)"

section \<open>HyperGeometry\<close>

fun map_result :: "('a \<Rightarrow> js_error + 'b) \<Rightarrow> 'a list \<Rightarrow> js_error + 'b list" where
  "map_result f [] = Inr []"
| "map_result f (x # xs) =
     and_then (f x) (\<lambda>y. and_then (map_result f xs) (\<lambda>ys. Inr (y # ys)))"

definition when_used :: "bool \<Rightarrow> js_error + 'a \<Rightarrow> js_error + 'a option" where
  "when_used flag m = (if flag then and_then m (\<lambda>x. Inr (Some x)) else Inr None)"

text \<open>\<^verbatim>\<open>faces.flat()\<close> keeps an undefined face as an element.\<close>

definition flat :: "nat list option list \<Rightarrow> nat option list" where
  "flat fs = concat (map (\<lambda>f. case f of None \<Rightarrow> [None] | Some face \<Rightarrow> map Some face) fs)"

text \<open>\<^verbatim>\<open>[...new Set(xs)]\<close>: the elements in the order of their first occurrence.\<close>

fun new_Set :: "'a list \<Rightarrow> 'a list \<Rightarrow> 'a list" where
  "new_Set seen [] = seen"
| "new_Set seen (x # xs) =
     (if x \<in> set seen then new_Set seen xs else new_Set (seen @ [x]) xs)"

text \<open>\<^verbatim>\<open>xs.indexOf(x)\<close>: the first index of \<open>x\<close>, or \<open>-1\<close>.\<close>

fun indexOf :: "'a list \<Rightarrow> 'a \<Rightarrow> int" where
  "indexOf [] x = -1"
| "indexOf (y # ys) x =
     (if y = x then 0 else (let k = indexOf ys x in if k < 0 then -1 else k + 1))"

record 'v hyperGeometry =
  hg_shape :: "'v shape"
  hg_options :: options
  vertexGeometriesIndices :: "nat option list list"
  dedupVertexGeometriesIndices :: "nat option list list"
  geometries :: "bufferGeometry list option"
  edgesGeometries :: "bufferGeometry list option"
  pointsGeometries :: "bufferGeometry list option"

text \<open>
  Lines 45 to 54, the triangles of one cell. \<^verbatim>\<open>face.length\<close> of an undefined face is a
  TypeError, and \<^verbatim>\<open>new Array(face.length - 2)\<close> is a RangeError when the length is
  negative.
\<close>

fun tesselate :: "nat list option list \<Rightarrow> nat list \<Rightarrow> nat \<Rightarrow> js_error + nat list" where
  "tesselate [] indices faceShift = Inr indices"
| "tesselate (None # fs) indices faceShift = Inl TypeError"
| "tesselate (Some face # fs) indices faceShift =
     (if length face < 2 then Inl RangeError
      else tesselate fs
             (indices @ concat (map (\<lambda>i. [faceShift, faceShift + i + 1, faceShift + i + 2])
                                  [0..<length face - 2]))
             (faceShift + length face))"

text \<open>Lines 68 to 76, the edge indices of one cell.\<close>

fun edge_indices :: "nat list option list \<Rightarrow> nat option list \<Rightarrow> int list \<Rightarrow> js_error + int list" where
  "edge_indices [] verticesIndices indices = Inr indices"
| "edge_indices (None # fs) verticesIndices indices = Inl TypeError"
| "edge_indices (Some face # fs) verticesIndices indices =
     edge_indices fs verticesIndices
       (indices @ concat (map (\<lambda>(verticeIndex, i).
                                 [indexOf verticesIndices (Some verticeIndex),
                                  indexOf verticesIndices (Some (face ! ((i + 1) mod length face)))])
                              (zip face [0..<length face])))"

text \<open>
  The colour getter of the cell builder, \<^verbatim>\<open>colorGetter({cell, face, vertice, type}).toArray()\<close>,
  is a parameter. The colours of a run of vertices are stored at \<^verbatim>\<open>pos++\<close>.
\<close>

type_synonym cellColor = "nat \<Rightarrow> nat option \<Rightarrow> nat option \<Rightarrow> string \<Rightarrow> point"

fun vertex_colors :: "engine \<Rightarrow> ('a \<Rightarrow> point) \<Rightarrow> 'a list \<Rightarrow> nat \<Rightarrow> real list \<Rightarrow> nat \<times> real list" where
  "vertex_colors e getter [] pos arr = (pos, arr)"
| "vertex_colors e getter (v # vs) pos arr =
     (case getter v of (r, g, b) \<Rightarrow>
        vertex_colors e getter vs (pos + 3)
          (arr[pos := fround e r, pos + 1 := fround e g, pos + 2 := fround e b]))"

text \<open>Lines 94 to 110, the colours of one cell's face buffer.\<close>

fun face_colors ::
  "engine \<Rightarrow> cellColor \<Rightarrow> nat \<Rightarrow> (nat list option \<times> nat) list \<Rightarrow> nat \<Rightarrow> real list \<Rightarrow>
     js_error + real list" where
  "face_colors e cc cellIndex [] pos arr = Inr arr"
| "face_colors e cc cellIndex ((None, faceIndex) # fs) pos arr = Inl TypeError"
| "face_colors e cc cellIndex ((Some face, faceIndex) # fs) pos arr =
     (case vertex_colors e (\<lambda>verticeIndex. cc cellIndex (Some faceIndex) (Some verticeIndex) ''face'')
             face pos arr of
        (pos', arr') \<Rightarrow> face_colors e cc cellIndex fs pos' arr')"

definition color_faces ::
  "engine \<Rightarrow> cellColor \<Rightarrow> 'v shape \<Rightarrow> (nat list \<times> nat) \<times> bufferGeometry \<Rightarrow>
     js_error + bufferGeometry" where
  "color_faces e cc sh = (\<lambda>((cell, cellIndex), g).
     case color g of
       None \<Rightarrow> Inl TypeError
     | Some arr \<Rightarrow>
         and_then (face_colors e cc cellIndex
                     (zip (cell_faces sh cell) [0..<length cell]) 0 arr)
           (\<lambda>arr'. Inr (g\<lparr>color := Some arr'\<rparr>)))"

text \<open>Lines 115 to 132 and 135 to 152, the colours of one cell's edge or point buffer.\<close>

definition color_vertices ::
  "engine \<Rightarrow> cellColor \<Rightarrow> string \<Rightarrow> (nat option list \<times> nat) \<times> bufferGeometry \<Rightarrow>
     js_error + bufferGeometry" where
  "color_vertices e cc kind = (\<lambda>((verticesIndex, cellIndex), g).
     case color g of
       None \<Rightarrow> Inl TypeError
     | Some arr \<Rightarrow>
         Inr (g\<lparr>color := Some (snd (vertex_colors e
                  (\<lambda>verticeIndex. cc cellIndex None verticeIndex kind) verticesIndex 0 arr))\<rparr>))"

text \<open>
  The \<^verbatim>\<open>for\<close> loops of \<^verbatim>\<open>update()\<close>: the projected vertex of each slot is read and
  destructured (a TypeError when the read gave \<^verbatim>\<open>undefined\<close>) and stored at
  \<^verbatim>\<open>i * 3\<close>.
\<close>

fun write_positions ::
  "engine \<Rightarrow> point list \<Rightarrow> nat option list \<Rightarrow> nat \<Rightarrow> real list \<Rightarrow> js_error + real list" where
  "write_positions e vs [] i arr = Inr arr"
| "write_positions e vs (vi # vis) i arr =
     (case (case vi of None \<Rightarrow> None | Some k \<Rightarrow> js_nth vs k) of
        None \<Rightarrow> Inl TypeError
      | Some p \<Rightarrow> write_positions e vs vis (i + 1) (put3 e i p arr))"

text \<open>
  One of the three blocks of \<^verbatim>\<open>update()\<close>: each index list with the geometry of the
  same position; the face block also recomputes the normals.
\<close>

fun update_geometries ::
  "engine \<Rightarrow> bool \<Rightarrow> point list \<Rightarrow> nat option list list \<Rightarrow> bufferGeometry list \<Rightarrow>
     js_error + bufferGeometry list" where
  "update_geometries e nrm vs [] gs = Inr gs"
| "update_geometries e nrm vs (vi # vis) [] = Inl TypeError"
| "update_geometries e nrm vs (vi # vis) (g # gs) =
     and_then (write_positions e vs vi 0 (position g))
       (\<lambda>arr. and_then (update_geometries e nrm vs vis gs)
          (\<lambda>gs'. Inr ((if nrm
                        then g\<lparr>position := arr,
                               normal := Some (computeVertexNormals e arr (index g))\<rparr>
                        else g\<lparr>position := arr\<rparr>) # gs')))"

definition update_block ::
  "engine \<Rightarrow> bool \<Rightarrow> bool \<Rightarrow> point list \<Rightarrow> nat option list list \<Rightarrow> bufferGeometry list option \<Rightarrow>
     js_error + bufferGeometry list option" where
  "update_block e flag nrm vs vis gs =
     (if flag
      then (case gs of
              None \<Rightarrow> (if vis = [] then Inr None else Inl TypeError)
            | Some gs' \<Rightarrow> and_then (update_geometries e nrm vs vis gs') (\<lambda>r. Inr (Some r)))
      else Inr gs)"

text \<open>\<^verbatim>\<open>this.shape.vertices.map(project)\<close>, with the vertices \<^verbatim>\<open>project\<close> was called on.\<close>

fun project_all :: "'v hyperRenderer \<Rightarrow> 'v list \<Rightarrow> point list \<times> 'v list" where
  "project_all r [] = ([], [])"
| "project_all r (v # vs) =
     (case project_all r vs of (ps, calls) \<Rightarrow> (project r v # ps, v # calls))"

text \<open>
  \<^verbatim>\<open>HyperGeometry.update()\<close>: an error or the builder after the call, with the
  vertices \<^verbatim>\<open>project\<close> was called on. Line 179 projects every vertex before any
  statement that can throw, so the calls are the same whether the call throws or returns.
\<close>

definition hg_update ::
  "engine \<Rightarrow> 'v hyperRenderer \<Rightarrow> 'v hyperGeometry \<Rightarrow> (js_error + 'v hyperGeometry) \<times> 'v list" where
  "hg_update e r b =
     (case project_all r (vertices (hg_shape b)) of (vs, calls) \<Rightarrow>
      (and_then (update_block e (useFaces (hg_options b)) True vs
                   (vertexGeometriesIndices b) (geometries b))
         (\<lambda>fg. and_then (update_block e (useEdges (hg_options b)) False vs
                          (dedupVertexGeometriesIndices b) (edgesGeometries b))
           (\<lambda>eg. and_then (update_block e (usePoints (hg_options b)) False vs
                            (dedupVertexGeometriesIndices b) (pointsGeometries b))
             (\<lambda>pg. Inr (b\<lparr>geometries := fg, edgesGeometries := eg, pointsGeometries := pg\<rparr>)))),
       calls))"

text \<open>Lines 37 to 57, 59 to 79 and 81 to 85 of the constructor.\<close>

definition init_faces :: "options \<Rightarrow> 'v shape \<Rightarrow> nat list \<times> nat option list \<Rightarrow> js_error + bufferGeometry" where
  "init_faces opts sh = (\<lambda>(cell, verticesIndices).
     and_then (tesselate (cell_faces sh cell) [] 0)
       (\<lambda>indices. Inr ((initGeometry opts (length verticesIndices))\<lparr>index := Some (map int indices)\<rparr>)))"

definition init_edges :: "options \<Rightarrow> 'v shape \<Rightarrow> nat list \<times> nat option list \<Rightarrow> js_error + bufferGeometry" where
  "init_edges opts sh = (\<lambda>(cell, verticesIndices).
     and_then (edge_indices (cell_faces sh cell) verticesIndices [])
       (\<lambda>indices. Inr ((initGeometry opts (length verticesIndices))\<lparr>index := Some indices\<rparr>)))"

definition with_index :: "'a list \<Rightarrow> ('a \<times> nat) list" where
  "with_index xs = zip xs [0..<length xs]"

text \<open>Lines 87 to 154 of the constructor.\<close>

definition color_stage ::
  "engine \<Rightarrow> cellColor \<Rightarrow> bool \<Rightarrow> ('a \<times> bufferGeometry \<Rightarrow> js_error + bufferGeometry) \<Rightarrow> 'a list \<Rightarrow>
     bufferGeometry list option \<Rightarrow> js_error + bufferGeometry list option" where
  "color_stage e cc flag f xs gs =
     (if flag
      then (case gs of
              None \<Rightarrow> Inl TypeError
            | Some gs' \<Rightarrow> and_then (map_result f (zip xs gs')) (\<lambda>r. Inr (Some r)))
      else Inr gs)"

text \<open>
  The constructor of \<^verbatim>\<open>HyperGeometry\<close>: lines 19 to 154 build the index lists, the
  geometries and the colours, and line 156 is \<^verbatim>\<open>this.update()\<close>.
\<close>

definition hg_init ::
  "engine \<Rightarrow> cellColor \<Rightarrow> 'v shape \<Rightarrow> options \<Rightarrow> js_error + 'v hyperGeometry" where
  "hg_init e cc sh opts =
     (let vgi = map (\<lambda>cell. flat (cell_faces sh cell)) (cells sh);
          dvgi = map (new_Set []) vgi
      in
      and_then (when_used (useFaces opts) (map_result (init_faces opts sh) (zip (cells sh) vgi)))
      (\<lambda>fg. and_then (when_used (useEdges opts) (map_result (init_edges opts sh) (zip (cells sh) dvgi)))
      (\<lambda>eg. and_then (when_used (usePoints opts)
                         (Inr (map (\<lambda>verticesIndices. initGeometry opts (length verticesIndices)) dvgi)))
      (\<lambda>pg. and_then (color_stage e cc (useColors opts \<and> useFaces opts) (color_faces e cc sh)
                         (with_index (cells sh)) fg)
      (\<lambda>fg'. and_then (color_stage e cc (useColors opts \<and> useEdges opts) (color_vertices e cc ''edge'')
                          (with_index dvgi) eg)
      (\<lambda>eg'. and_then (color_stage e cc (useColors opts \<and> usePoints opts) (color_vertices e cc ''point'')
                          (with_index dvgi) pg)
      (\<lambda>pg'. Inr \<lparr>hg_shape = sh, hg_options = opts,
                   vertexGeometriesIndices = vgi, dedupVertexGeometriesIndices = dvgi,
                   geometries = fg', edgesGeometries = eg', pointsGeometries = pg'\<rparr>)))))))"

text \<open>
  The whole constructor: when lines 19 to 154 throw, \<^verbatim>\<open>update()\<close> is not reached and
  \<^verbatim>\<open>project\<close> is not called.
\<close>

definition new_HyperGeometry ::
  "engine \<Rightarrow> cellColor \<Rightarrow> 'v hyperRenderer \<Rightarrow> 'v shape \<Rightarrow> options \<Rightarrow>
     (js_error + 'v hyperGeometry) \<times> 'v list" where
  "new_HyperGeometry e cc r sh opts =
     (case hg_init e cc sh opts of
        Inl err \<Rightarrow> (Inl err, [])
      | Inr b \<Rightarrow> hg_update e r b)"

text \<open>
  A run of \<^verbatim>\<open>update()\<close> calls, one for each state of the projector in the list, with
  the builder each call leaves handed to the next.
\<close>

fun hg_updates :: "engine \<Rightarrow> 'v hyperRenderer list \<Rightarrow> 'v hyperGeometry \<Rightarrow> js_error + 'v hyperGeometry" where
  "hg_updates e [] b = Inr b"
| "hg_updates e (r # rs) b = and_then (fst (hg_update e r b)) (hg_updates e rs)"

section \<open>Notions used by the properties\<close>

text \<open>
  A segment with its two ends named, and the ends of a segment as a multiset: a pair
  \<^verbatim>\<open>[p, q]\<close> of the builder stands for the segment \<open>(x, y)\<close> in either orientation
  when \<open>mset [p, q] = seg_ends (x, y)\<close>.
\<close>

definition seg_ends :: "point \<times> point \<Rightarrow> point multiset" where
  "seg_ends = (\<lambda>(x, y). {#x, y#})"

text \<open>
  \<open>chainable d segs\<close>: the segments, in this order and orientation, continue a chain
  that ends in \<open>d\<close>. The first segment starts within the tolerance of \<open>d\<close>, no other
  end of any segment is within the tolerance of \<open>d\<close>, and the rest continues from the
  far end of the first segment in the same way.
\<close>

fun chainable :: "point \<Rightarrow> (point \<times> point) list \<Rightarrow> bool" where
  "chainable d [] = True"
| "chainable d ((x, y) # segs) =
     (near x d \<and> \<not> near y d \<and> list_all (\<lambda>(x', y'). \<not> near x' d \<and> \<not> near y' d) segs \<and>
      chainable y segs)"

text \<open>
  A reading of a cycle: a list of segments, from one of them on and in one direction,
  in which each segment continues the chain of the ones before it and the last ends
  within the tolerance of the start of the first.
\<close>

definition reading_closes :: "(point \<times> point) list \<Rightarrow> bool" where
  "reading_closes segs =
     (case segs of
        [] \<Rightarrow> False
      | (a, b) # rest \<Rightarrow> rest \<noteq> [] \<and> chainable b rest \<and> near (snd (last rest)) a)"

text \<open>The same cycle read in the other direction.\<close>

definition turned :: "(point \<times> point) list \<Rightarrow> (point \<times> point) list" where
  "turned cyc = map (\<lambda>(x, y). (y, x)) (rev cyc)"

text \<open>
  A single consistent cycle of \<open>n \<ge> 3\<close> segments: read from any of its segments, in
  either direction, it closes. So every end of a segment is within the tolerance of
  exactly one end of another segment, the one it is joined to.
\<close>

definition segment_cycle :: "(point \<times> point) list \<Rightarrow> bool" where
  "segment_cycle cyc =
     (3 \<le> length cyc \<and>
      list_all (\<lambda>k. reading_closes (rotate k cyc) \<and> reading_closes (rotate k (turned cyc)))
        [0..<length cyc])"

text \<open>
  The pairs of a cell form the cycle: they are its segments, in any order in the list
  and with their two points in any order.
\<close>

definition pairs_form_cycle :: "point list list \<Rightarrow> (point \<times> point) list \<Rightarrow> bool" where
  "pairs_form_cycle pairs cyc =
     (segment_cycle cyc \<and> mset (map mset pairs) = mset (map seg_ends cyc))"

text \<open>
  The state of the \<^verbatim>\<open>while\<close> loop after \<open>k\<close> iterations that each found a match, if
  the loop gets that far.
\<close>

fun loop_after ::
  "nat \<Rightarrow> point list list \<Rightarrow> point list \<Rightarrow> (point list list \<times> point list) option" where
  "loop_after 0 pairs linkedPairs = Some (pairs, linkedPairs)"
| "loop_after (Suc k) pairs linkedPairs =
     (if pairs = [] then None
      else (case scan (last linkedPairs) pairs linkedPairs of
              (pairs', linkedPairs') \<Rightarrow>
                if length pairs = length pairs' then None
                else loop_after k pairs' linkedPairs'))"

text \<open>No remaining pair has one of its two points within the tolerance of \<open>d\<close>.\<close>

definition no_match :: "point \<Rightarrow> point list list \<Rightarrow> bool" where
  "no_match d pairs = list_all (\<lambda>pair. \<not> near (pair ! 0) d \<and> \<not> near (pair ! 1) d) pairs"

text \<open>
  A geometry the builder writes to (its kind is in use) is there and has room for \<open>n\<close>
  vertices in its position array and, when colours are used, in its colour array, which is
  there as well. Nothing is asked of a geometry whose kind is not in use.
\<close>

definition has_capacity :: "options \<Rightarrow> bool \<Rightarrow> nat \<Rightarrow> bufferGeometry option \<Rightarrow> bool" where
  "has_capacity opts flag n og =
     (if flag
      then (case og of
              None \<Rightarrow> False
            | Some g \<Rightarrow>
                length (position g) = 3 * n \<and>
                (if useColors opts
                 then (case color g of None \<Rightarrow> False | Some c \<Rightarrow> length c = 3 * n)
                 else True))
      else True)"

text \<open>The three geometries of a frame have room for \<open>n\<close> vertices.\<close>

definition frame_capacity :: "options \<Rightarrow> nat \<Rightarrow> frame \<Rightarrow> bool" where
  "frame_capacity opts n fr =
     (has_capacity opts (useFaces opts) n (fr_geometry fr) \<and>
      has_capacity opts (useEdges opts) n (fr_edgeGeometry fr) \<and>
      has_capacity opts (usePoints opts) n (fr_pointGeometry fr))"

text \<open>
  The number of arrays one point of a chain is stored into: the position array of each
  kind of geometry in use, and its colour array when colours are used.
\<close>

definition arrays_written :: "options \<Rightarrow> nat" where
  "arrays_written opts =
     (if useColors opts then 2 else 1) *
     ((if useFaces opts then 1 else 0) + (if useEdges opts then 1 else 0) +
      (if usePoints opts then 1 else 0))"

text \<open>
  The record of the stores of a frame is complete and every store was made at a vertex
  below the counter: three stores for each array of each vertex counted, each at an index
  below \<open>3 * i\<close>.
\<close>

definition stores_below_counter :: "options \<Rightarrow> frame \<Rightarrow> bool" where
  "stores_below_counter opts fr =
     (length (fr_stored fr) = 3 * arrays_written opts * fr_i fr \<and>
      list_all (\<lambda>k. k < 3 * fr_i fr) (fr_stored fr))"

text \<open>
  Every face index of every cell is in range, and no face is cut in more than two
  points.
\<close>

definition two_point_faces :: "'v hyperRenderer \<Rightarrow> 'v shape \<Rightarrow> bool" where
  "two_point_faces r sh =
     list_all (\<lambda>cell. list_all (\<lambda>faceIndex. faceIndex < length (faces sh) \<and>
                  length (fst (face_pair r (vertices sh) (faces sh ! faceIndex))) \<le> 2) cell)
       (cells sh)"

text \<open>
  The calls of \<^verbatim>\<open>slice\<close> that one \<^verbatim>\<open>update()\<close> running through all cells makes:
  one for each boundary edge of each face reference of each cell, in the order of the
  cells, of the face references in a cell and of the edges around a face. A face index
  out of range has no edges.
\<close>

definition edges_of :: "'v list \<Rightarrow> nat list option \<Rightarrow> ('v option \<times> 'v option) list" where
  "edges_of vs f = (case f of None \<Rightarrow> [] | Some face \<Rightarrow> face_edges vs face)"

definition cell_edges :: "'v shape \<Rightarrow> nat list \<Rightarrow> ('v option \<times> 'v option) list" where
  "cell_edges sh cell = concat (map (edges_of (vertices sh)) (cell_faces sh cell))"

definition face_reference_edges :: "'v shape \<Rightarrow> ('v option \<times> 'v option) list" where
  "face_reference_edges sh = concat (map (cell_edges sh) (cells sh))"

text \<open>
  The shape is well formed: every face index of every cell is in range, and every face
  has at least three vertices, all of them in range.
\<close>

definition well_formed :: "'v shape \<Rightarrow> bool" where
  "well_formed sh =
     (list_all (\<lambda>cell. list_all (\<lambda>faceIndex. faceIndex < length (faces sh)) cell) (cells sh) \<and>
      list_all (\<lambda>face. 3 \<le> length face \<and>
                  list_all (\<lambda>verticeIndex. verticeIndex < length (vertices sh)) face) (faces sh))"

text \<open>
  The shapes the constructor of the cell builder gets through: every face index of every
  cell is in range, and every face a cell refers to has at least two vertices, all of
  them in range.
\<close>

definition accepted :: "'v shape \<Rightarrow> bool" where
  "accepted sh =
     list_all (\<lambda>cell. list_all (\<lambda>faceIndex. faceIndex < length (faces sh) \<and>
                  2 \<le> length (faces sh ! faceIndex) \<and>
                  list_all (\<lambda>verticeIndex. verticeIndex < length (vertices sh))
                    (faces sh ! faceIndex)) cell)
       (cells sh)"

text \<open>
  The fan of a face of \<open>k\<close> vertices whose first vertex has slot \<open>f\<close>: the triangles
  \<open>(f, f + j + 1, f + j + 2)\<close> for \<open>j\<close> from \<open>0\<close> to \<open>k - 3\<close>. The triangles of a cell
  are the fans of its faces, each face starting at the slot after the vertices of the
  faces before it.
\<close>

definition fan :: "nat \<Rightarrow> nat \<Rightarrow> nat list" where
  "fan f k = concat (map (\<lambda>j. [f, f + j + 1, f + j + 2]) [0..<k - 2])"

definition cell_triangles :: "nat list list \<Rightarrow> nat list" where
  "cell_triangles fs =
     concat (map (\<lambda>m. fan (sum_list (map length (take m fs))) (length (fs ! m))) [0..<length fs])"

text \<open>
  What \<^verbatim>\<open>update()\<close> of the cell builder is to leave alone in a geometry: the size of
  the position array, the colour array, the index and the draw range.
\<close>

definition fixed_part ::
  "bufferGeometry \<Rightarrow> nat \<times> real list option \<times> int list option \<times> (nat \<times> nat) option" where
  "fixed_part g = (length (position g), color g, index g, drawRange g)"

definition topology ::
  "'v hyperGeometry \<Rightarrow>
     ((nat \<times> real list option \<times> int list option \<times> (nat \<times> nat) option) list option) list" where
  "topology b =
     [map_option (map fixed_part) (geometries b),
      map_option (map fixed_part) (edgesGeometries b),
      map_option (map fixed_part) (pointsGeometries b)]"

text \<open>
  What a constructor stage leaves: nothing when the buffer kind is not used, and
  otherwise one geometry per cell, each with a colour array when colours are used.
\<close>

definition staged :: "options \<Rightarrow> bool \<Rightarrow> nat \<Rightarrow> bufferGeometry list option \<Rightarrow> bool" where
  "staged opts flag n og =
     (if flag then \<exists>gs. og = Some gs \<and> length gs = n \<and>
                        (useColors opts \<longrightarrow> (\<forall>g \<in> set gs. color g \<noteq> None))
      else og = None)"

text \<open>
  A builder on which \<^verbatim>\<open>update()\<close> cannot fail: every slot of its index lists names a
  vertex of the shape, and every buffer kind in use has a geometry for each index list.
\<close>

definition valid_slots :: "nat \<Rightarrow> nat option list list \<Rightarrow> bool" where
  "valid_slots n vis = (\<forall>vi \<in> set vis. \<forall>x \<in> set vi. \<exists>k. x = Some k \<and> k < n)"

definition provided :: "bool \<Rightarrow> nat \<Rightarrow> bufferGeometry list option \<Rightarrow> bool" where
  "provided flag n og = (flag \<longrightarrow> (\<exists>gs. og = Some gs \<and> n \<le> length gs))"

definition updatable :: "'v hyperGeometry \<Rightarrow> bool" where
  "updatable b =
     (valid_slots (length (vertices (hg_shape b))) (vertexGeometriesIndices b) \<and>
      valid_slots (length (vertices (hg_shape b))) (dedupVertexGeometriesIndices b) \<and>
      provided (useFaces (hg_options b)) (length (vertexGeometriesIndices b)) (geometries b) \<and>
      provided (useEdges (hg_options b)) (length (dedupVertexGeometriesIndices b)) (edgesGeometries b) \<and>
      provided (usePoints (hg_options b)) (length (dedupVertexGeometriesIndices b)) (pointsGeometries b))"

text \<open>
  A run of stores into a typed array: each store sets one index (a store past the end
  is ignored), later stores winning.
\<close>

definition apply_writes :: "(nat \<times> real) list \<Rightarrow> real list \<Rightarrow> real list" where
  "apply_writes ws arr = foldl (\<lambda>a w. a[fst w := snd w]) arr ws"

text \<open>The three stores of one point.\<close>

definition put3_writes :: "engine \<Rightarrow> nat \<Rightarrow> point \<Rightarrow> (nat \<times> real) list" where
  "put3_writes e n p =
     (case p of (x, y, z) \<Rightarrow> [(3 * n, fround e x), (3 * n + 1, fround e y), (3 * n + 2, fround e z)])"

text \<open>
  A geometry that the stores of a point can be made into: it is there, and so is its
  colour array when colours are used.
\<close>

definition writable :: "options \<Rightarrow> bufferGeometry option \<Rightarrow> bool" where
  "writable opts og =
     (case og of None \<Rightarrow> False | Some g \<Rightarrow> (if useColors opts then color g \<noteq> None else True))"

text \<open>
  The stores of an \<^verbatim>\<open>update()\<close> into one geometry (positions and colours) and into the
  three geometries of a frame, the frame with its geometries replaced, and the stores of
  two runs one after the other.
\<close>

type_synonym writes = "(nat \<times> real) list \<times> (nat \<times> real) list"

definition stamp :: "writes \<Rightarrow> bufferGeometry option \<Rightarrow> bufferGeometry option" where
  "stamp w og =
     map_option (\<lambda>g. g\<lparr>position := apply_writes (fst w) (position g),
                         color := map_option (apply_writes (snd w)) (color g)\<rparr>) og"

type_synonym geoms = "bufferGeometry option \<times> bufferGeometry option \<times> bufferGeometry option"

definition set_geoms :: "frame \<Rightarrow> geoms \<Rightarrow> frame" where
  "set_geoms fr G =
     fr\<lparr>fr_geometry := fst G, fr_edgeGeometry := fst (snd G), fr_pointGeometry := snd (snd G)\<rparr>"

definition stamps :: "writes \<times> writes \<times> writes \<Rightarrow> geoms \<Rightarrow> geoms" where
  "stamps W G =
     (stamp (fst W) (fst G), stamp (fst (snd W)) (fst (snd G)), stamp (snd (snd W)) (snd (snd G)))"

definition then_writes :: "writes \<times> writes \<times> writes \<Rightarrow> writes \<times> writes \<times> writes \<Rightarrow> writes \<times> writes \<times> writes" where
  "then_writes W W' =
     ((fst (fst W) @ fst (fst W'), snd (fst W) @ snd (fst W')),
      (fst (fst (snd W)) @ fst (fst (snd W')), snd (fst (snd W)) @ snd (fst (snd W'))),
      (fst (snd (snd W)) @ fst (snd (snd W')), snd (snd (snd W)) @ snd (snd (snd W'))))"

definition no_writes :: "writes \<times> writes \<times> writes" where
  "no_writes = (([], []), ([], []), ([], []))"

text \<open>Three geometries of which each kind in use can be stored into.\<close>

definition usable :: "options \<Rightarrow> geoms \<Rightarrow> bool" where
  "usable opts G =
     ((if useFaces opts then writable opts (fst G) else True) \<and>
      (if useEdges opts then writable opts (fst (snd G)) else True) \<and>
      (if usePoints opts then writable opts (snd (snd G)) else True))"

text \<open>The indices of the three stores at vertex \<open>n\<close>, and of the stores of one block.\<close>

definition slots :: "nat \<Rightarrow> nat list" where
  "slots n = [3 * n, 3 * n + 1, 3 * n + 2]"

definition block_slots :: "options \<Rightarrow> bool \<Rightarrow> nat \<Rightarrow> nat list" where
  "block_slots opts flag n =
     (if flag then (if useColors opts then slots n @ slots n else slots n) else [])"

definition point_slots :: "options \<Rightarrow> nat \<Rightarrow> nat list" where
  "point_slots opts n =
     block_slots opts (useFaces opts) n @ block_slots opts (useEdges opts) n @
     block_slots opts (usePoints opts) n"

text \<open>
  The stores of one point of a chain as lists of writes: into one geometry, and into the
  three geometries of a frame.
\<close>

definition block_writes :: "engine \<Rightarrow> options \<Rightarrow> bool \<Rightarrow> nat \<Rightarrow> point \<Rightarrow> point \<Rightarrow> writes" where
  "block_writes e opts flag n p rgb =
     (if flag then (put3_writes e n p, if useColors opts then put3_writes e n rgb else [])
      else ([], []))"

definition point_writes ::
  "engine \<Rightarrow> options \<Rightarrow> pairColor \<Rightarrow> nat \<Rightarrow> nat \<Rightarrow> point \<Rightarrow> nat \<Rightarrow> writes \<times> writes \<times> writes" where
  "point_writes e opts cg cellIndex n p pairIndex =
     (block_writes e opts (useFaces opts) n p (cg cellIndex pairIndex p ''face-pair''),
      block_writes e opts (useEdges opts) n p (cg cellIndex pairIndex p ''edge-pair''),
      block_writes e opts (usePoints opts) n p (cg cellIndex pairIndex p ''vertex-pair''))"

definition geoms_of :: "frame \<Rightarrow> geoms" where
  "geoms_of fr = (fr_geometry fr, fr_edgeGeometry fr, fr_pointGeometry fr)"

text \<open>A change of the frame inside the result of a run over cells.\<close>

definition lift_frame ::
  "(frame \<Rightarrow> frame) \<Rightarrow> ((js_error + frame) \<times> 'c) option \<Rightarrow> ((js_error + frame) \<times> 'c) option" where
  "lift_frame f res = map_option (map_prod (map_sum (\<lambda>err. err) f) (\<lambda>calls. calls)) res"

subsection \<open>Test data\<close>

text \<open>
  A tetrahedron as a single cell, with its vertices named by numbers, and three
  projectors. The first cuts the four edges between the vertices 0, 1 and the vertices
  2, 3, each in a point of its own: the cross-section is a quadrilateral. The second
  gives pairs that do not close. The third answers every call with the same point.
\<close>

definition tetra :: "nat shape" where
  "tetra = \<lparr>vertices = [0, 1, 2, 3],
            faces = [[0, 1, 2], [0, 1, 3], [0, 2, 3], [1, 2, 3]],
            cells = [[0, 1, 2, 3]]\<rparr>"

definition cross_cut :: "nat hyperRenderer" where
  "cross_cut =
     \<lparr>project = (\<lambda>v. (real v, 0, 0)),
      slice = (\<lambda>p1 p2. case (p1, p2) of
                 (Some a, Some b) \<Rightarrow>
                   if (a < 2) \<noteq> (b < 2) then Some (real (min a b), real (max a b), 0) else None
               | _ \<Rightarrow> None)\<rparr>"

definition rising_cut :: "nat hyperRenderer" where
  "rising_cut =
     \<lparr>project = (\<lambda>v. (real v, 0, 0)),
      slice = (\<lambda>p1 p2. case (p1, p2) of
                 (Some a, Some b) \<Rightarrow> if a < b then Some (real a, real b, 0) else None
               | _ \<Rightarrow> None)\<rparr>"

definition same_cut :: "nat hyperRenderer" where
  "same_cut = \<lparr>project = (\<lambda>v. (0, 0, 0)), slice = (\<lambda>p1 p2. Some (0, 0, 0))\<rparr>"

text \<open>A shape whose only face has two vertices.\<close>

definition digon :: "nat shape" where
  "digon = \<lparr>vertices = [0, 1], faces = [[0, 1]], cells = [[0]]\<rparr>"

definition plain_engine :: engine where
  "plain_engine = \<lparr>fround = (\<lambda>x. x), computeVertexNormals = (\<lambda>arr ix. [])\<rparr>"

definition all_options :: options where
  "all_options = \<lparr>useColors = True, useFaces = True, useEdges = True, usePoints = True\<rparr>"

definition default_options :: options where
  "default_options = \<lparr>useColors = False, useFaces = True, useEdges = False, usePoints = False\<rparr>"

definition grey :: pairColor where
  "grey = (\<lambda>cell pair p kind. (1 / 2, 1 / 2, 1 / 2))"

definition white :: cellColor where
  "white = (\<lambda>cell face vertice kind. (1, 1, 1))"

text \<open>The cell builder of the tetrahedron, with all buffer kinds and colours.\<close>

definition tetra_cells :: "nat hyperGeometry" where
  "tetra_cells = projr (fst (new_HyperGeometry plain_engine white cross_cut tetra all_options))"

section \<open>Properties of the rounding\<close>

lemma round_even_of_int: "round_even (of_int n) = n"
  by (simp add: round_even_def)

lemma pick_none: "\<forall>y \<in> set ys. \<not> P y \<Longrightarrow> foldl (\<lambda>k e. if P e then e else k) a ys = a"
  by (induction ys arbitrary: a) simp_all

lemma pick_last:
  "P e \<Longrightarrow> \<forall>y \<in> set ys. \<not> P y \<Longrightarrow> foldl (\<lambda>k e. if P e then e else k) a (xs @ e # ys) = e"
  by (simp add: pick_none)

lemma pick_cases:
  "foldl (\<lambda>k e. if P e then e else k) a es = a \<or> P (foldl (\<lambda>k e. if P e then e else k) a es)"
  by (induction es arbitrary: a rule: rev_induct) auto

lemma pick_upto_none:
  assumes "\<And>y. lo \<le> y \<Longrightarrow> \<not> P y"
  shows "foldl (\<lambda>k e. if P e then e else k) a [lo..hi] = a"
  by (rule pick_none) (simp add: assms)

text \<open>
  The exponent of a number in the range of the normal doubles is the \<open>e\<close> with
  \<open>2\<^sup>e \<le> \<bar>x\<bar> < 2\<^sup>e\<^sup>+\<^sup>1\<close>; below that range it is \<open>-1022\<close>.
\<close>

lemma exponent64_eq:
  assumes "- 1022 \<le> e" "e \<le> 1023" "2 powi e \<le> \<bar>x\<bar>" "\<bar>x\<bar> < 2 powi (e + 1)"
  shows "exponent64 x = e"
proof -
  have s: "[- 1022..1023] = [- 1022..e - 1] @ e # [e + 1..1023]"
    using assms(1,2) by (rule upto_split3)
  have "\<not> 2 powi y \<le> \<bar>x\<bar>" if "y \<in> set [e + 1..1023]" for y
  proof -
    from that have "e + 1 \<le> y" by simp
    from power_int_increasing[OF this, of "2::real"] assms(4) show ?thesis by simp
  qed
  then show ?thesis
    unfolding exponent64_def s using assms(3) by (intro pick_last) auto
qed

lemma exponent64_subnormal:
  assumes "\<bar>x\<bar> < 2 powi (- 1022)"
  shows "exponent64 x = - 1022"
  unfolding exponent64_def
proof (rule pick_upto_none)
  fix y :: int
  assume "- 1022 \<le> y"
  from power_int_increasing[OF this, of "2::real"] assms show "\<not> 2 powi y \<le> \<bar>x\<bar>" by simp
qed

text \<open>An integer below \<open>2\<^sup>5\<^sup>3\<close> in magnitude is a double: rounding leaves it.\<close>

lemma round64_of_int:
  assumes "\<bar>m\<bar> < 2 ^ 53"
  shows "round64 (of_int m) = of_int m"
proof -
  define x :: real where "x = of_int m"
  define e where "e = exponent64 x"
  have "e = - 1022 \<or> 2 powi e \<le> \<bar>x\<bar>"
    unfolding e_def exponent64_def by (rule pick_cases)
  moreover have "\<bar>x\<bar> < 2 powi 53" using assms by (simp add: x_def flip: of_int_abs)
  ultimately have "e \<le> 52"
  proof (elim disjE)
    assume "e = - 1022" then show ?thesis by simp
  next
    assume "2 powi e \<le> \<bar>x\<bar>" and "\<bar>x\<bar> < 2 powi 53"
    then have "(2::real) powi e < 2 powi 53" by simp
    moreover have "(2::real) powi 53 \<le> 2 powi e" if "53 \<le> e"
      using power_int_increasing[OF that, of "2::real"] by simp
    ultimately have "e < 53" by (cases "53 \<le> e") auto
    then show ?thesis by simp
  qed
  then obtain k where k: "e - 52 = - int k" by (metis diff_le_0_iff_le nonpos_int_cases)
  have "x / 2 powi (e - 52) = of_int (m * 2 ^ k)"
    unfolding k by (simp add: power_int_minus x_def field_simps)
  then have "round_even (x / 2 powi (e - 52)) = m * 2 ^ k" by (simp only: round_even_of_int)
  then have "round64 x = of_int (m * 2 ^ k) * 2 powi (e - 52)"
    by (simp add: round64_def e_def)
  also have "\<dots> = x" unfolding k by (simp add: power_int_minus x_def field_simps)
  finally show ?thesis by (simp add: x_def)
qed

lemma round64_numeral:
  "round64 0 = 0" "round64 1 = 1" "round64 (- 1) = - 1"
  "(numeral k :: int) < 2 ^ 53 \<Longrightarrow> round64 (numeral k) = numeral k"
  "(numeral k :: int) < 2 ^ 53 \<Longrightarrow> round64 (- numeral k) = - numeral k"
  using round64_of_int[of 0] round64_of_int[of 1] round64_of_int[of "- 1"]
    round64_of_int[of "numeral k"] round64_of_int[of "- numeral k"]
  by simp_all

text \<open>
  The rounding decides matches. The double just below \<^verbatim>\<open>1e-8\<close> and \<open>-5 \<times> 2\<^sup>-\<^sup>8\<^sup>2\<close>
  differ by less than \<open>epsilon\<close>, and their difference as doubles is \<open>epsilon\<close> itself,
  which is not below \<open>epsilon\<close>.
\<close>

lemma rounded_difference_example:
  "\<bar>(epsilon - 1 / 2 ^ 79) - (- 5 / 2 ^ 82)\<bar> < epsilon \<and>
   \<not> \<bar>round64 ((epsilon - 1 / 2 ^ 79) - (- 5 / 2 ^ 82))\<bar> < epsilon"
proof -
  have x: "(epsilon - 1 / 2 ^ 79) - (- 5 / 2 ^ 82) = 48357032784585165 / 2 ^ 82"
    by (simp add: epsilon_def)
  have a1: "(2::real) powi (- 27) = 1 / 2 ^ 27" by (simp add: power_int_def power_divide)
  have a2: "(2::real) powi (- 27 - 52) = 1 / 2 ^ 79" by (simp add: power_int_def power_divide)
  have a3: "(2::real) powi (- 27 + 1) = 1 / 2 ^ 26" by (simp add: power_int_def power_divide)
  have e: "exponent64 (48357032784585165 / 2 ^ 82) = - 27"
    by (rule exponent64_eq) (simp_all add: a1 a3)
  have q: "(48357032784585165 / 2 ^ 82) / (1 / 2 ^ 79) = (48357032784585165 / 8 :: real)"
    by simp
  have r: "round_even (48357032784585165 / 8) = 6044629098073146"
    by (simp add: round_even_def)
  have "round64 (48357032784585165 / 2 ^ 82) = epsilon"
    unfolding round64_def e a2 Let_def q r by (simp add: epsilon_def)
  then show ?thesis unfolding x by (simp add: epsilon_def)
qed

section \<open>Properties of the loop reconstruction\<close>

lemma scan_length:
  "scan d ps l = (ps', l') \<Longrightarrow>
     (length ps' = length ps \<and> l' = l) \<or> (Suc (length ps') = length ps \<and> length l' = Suc (length l))"
  by (induction ps arbitrary: ps' l') (auto simp: Let_def split: if_splits prod.splits)


lemma link_loop_Nil: "link_loop [] l = Some (Some l)"
  by (subst link_loop.simps) simp

lemma link_loop_Cons:
  "link_loop (p # ps) l =
     (case scan (last l) (p # ps) l of
        (ps', l') \<Rightarrow> if Suc (length ps) = length ps' then Some None else link_loop ps' l')"
  by (subst link_loop.simps) (simp add: Let_def del: scan.simps)

lemma link_loop_step:
  "ps \<noteq> [] \<Longrightarrow> scan (last l) ps l = (ps', l') \<Longrightarrow>
     link_loop ps l = (if length ps = length ps' then Some None else link_loop ps' l')"
  by (subst link_loop.simps) (simp add: Let_def)

lemma link_loop_total: "\<exists>res. link_loop ps l = Some res"
proof (induction "length ps" arbitrary: ps l rule: less_induct)
  case less
  show ?case
  proof (cases "ps = []")
    case True
    then show ?thesis by (simp add: link_loop_Nil)
  next
    case False
    obtain ps' l' where sc: "scan (last l) ps l = (ps', l')"
      by (cases "scan (last l) ps l") auto
    show ?thesis
    proof (cases "length ps = length ps'")
      case True
      with link_loop_step[OF False sc] show ?thesis by simp
    next
      case ne: False
      with scan_length[OF sc] have "length ps' < length ps" by auto
      from less[OF this] obtain res where "link_loop ps' l' = Some res" by blast
      with link_loop_step[OF False sc] ne show ?thesis by simp
    qed
  qed
qed

lemma link_loop_length:
  "link_loop ps l = Some (Some chain) \<Longrightarrow> length chain = length l + length ps"
proof (induction "length ps" arbitrary: ps l rule: less_induct)
  case less
  show ?case
  proof (cases "ps = []")
    case True
    with less.prems show ?thesis by (simp add: link_loop_Nil)
  next
    case False
    obtain ps' l' where sc: "scan (last l) ps l = (ps', l')"
      by (cases "scan (last l) ps l") auto
    show ?thesis
    proof (cases "length ps = length ps'")
      case True
      with link_loop_step[OF False sc] less.prems show ?thesis by simp
    next
      case ne: False
      with scan_length[OF sc]
      have lt: "Suc (length ps') = length ps" "length l' = Suc (length l)" by auto
      from link_loop_step[OF False sc] ne less.prems
      have "link_loop ps' l' = Some (Some chain)" by simp
      from less.hyps[OF _ this] lt show ?thesis by simp
    qed
  qed
qed

text \<open>
  C10. The \<^verbatim>\<open>while\<close> loop of the loop reconstruction returns for every list of pairs
  and every chain, whatever the pairs hold: it ends with a chain or gives the cell up.
  One pass of the inner \<^verbatim>\<open>for\<close> loop leaves the number of remaining pairs unchanged,
  which ends the loop by the \<^verbatim>\<open>return\<close>, or lowers it by exactly one.
\<close>

theorem link_loop_terminates:
  "(\<exists>res. link_loop pairs linkedPairs = Some res) \<and>
   (length (fst (scan dangle pairs linkedPairs)) = length pairs \<or>
    Suc (length (fst (scan dangle pairs linkedPairs))) = length pairs)"
proof
  show "\<exists>res. link_loop pairs linkedPairs = Some res" by (rule link_loop_total)
next
  obtain ps' l' where sc: "scan dangle pairs linkedPairs = (ps', l')"
    by (cases "scan dangle pairs linkedPairs") auto
  from scan_length[OF sc] sc
  show "length (fst (scan dangle pairs linkedPairs)) = length pairs \<or>
        Suc (length (fst (scan dangle pairs linkedPairs))) = length pairs" by auto
qed

subsection \<open>Closing a cycle\<close>

lemma mset_two: "mset q = {#x, y#} \<Longrightarrow> q = [x, y] \<or> q = [y, x]"
proof -
  assume a: "mset q = {#x, y#}"
  then have "size (mset q) = 2" by simp
  then have "length q = 2" by simp
  then obtain a b where q: "q = [a, b]"
    by (cases q; cases "tl q") auto
  with a show ?thesis by (auto simp: add_eq_conv_ex)
qed

lemma scan_unique:
  assumes "mset pr = {#x, y#}" "near x d" "\<not> near y d"
    and "\<forall>q \<in> set pre. \<not> near (q ! 0) d \<and> \<not> near (q ! 1) d"
  shows "scan d (pre @ pr # post) l = (pre @ post, l @ [y])"
  using assms(4)
proof (induction pre)
  case Nil
  from mset_two[OF assms(1)] assms(2,3) show ?case by auto
next
  case (Cons q pre)
  then show ?case by (simp add: Let_def)
qed

lemma link_path:
  "chainable (last l) segs \<Longrightarrow> mset (map mset ps) = mset (map seg_ends segs) \<Longrightarrow>
     link_loop ps l = Some (Some (l @ map snd segs))"
proof (induction segs arbitrary: ps l)
  case Nil
  then show ?case by (simp add: link_loop_Nil)
next
  case (Cons s segs)
  obtain x y where s: "s = (x, y)" by (cases s)
  let ?d = "last l"
  from Cons.prems(1) s have nx: "near x ?d" and ny: "\<not> near y ?d"
    and far: "\<forall>(x', y') \<in> set segs. \<not> near x' ?d \<and> \<not> near y' ?d"
    and ch: "chainable y segs" by (auto simp: list_all_iff)
  have "{#x, y#} \<in># mset (map mset ps)"
    using Cons.prems(2) s by (simp add: seg_ends_def)
  then obtain pr where pr: "pr \<in> set ps" "mset pr = {#x, y#}" by auto
  then obtain pre post where ps: "ps = pre @ pr # post" by (meson split_list)
  have rest: "mset (map mset (pre @ post)) = mset (map seg_ends segs)"
    using Cons.prems(2) s pr(2) ps by (simp add: seg_ends_def)
  have farq: "\<not> near (q ! 0) ?d \<and> \<not> near (q ! 1) ?d" if "q \<in> set (pre @ post)" for q
  proof -
    from that have "mset q \<in># mset (map mset (pre @ post))" by auto
    with rest have "mset q \<in> set (map seg_ends segs)" by (metis set_mset_mset)
    then obtain x' y' where xy: "(x', y') \<in> set segs" "mset q = {#x', y'#}"
      by (auto simp: seg_ends_def)
    from mset_two[OF xy(2)] far xy(1) show ?thesis by auto
  qed
  have sc: "scan ?d ps l = (pre @ post, l @ [y])"
    unfolding ps using pr(2) nx ny farq by (intro scan_unique) auto
  have "link_loop ps l = link_loop (pre @ post) (l @ [y])"
    using link_loop_step[OF _ sc] ps by simp
  also have "\<dots> = Some (Some ((l @ [y]) @ map snd segs))"
    using ch rest by (intro Cons.IH) auto
  finally show ?case using s by simp
qed

lemma mset_rotate1: "mset (rotate1 xs) = mset xs"
  by (cases xs) simp_all

lemma mset_rotate': "mset (rotate k xs) = mset xs"
  by (induction k) (simp_all add: mset_rotate1)

lemma mset_map_rotate: "mset (map f (rotate k xs)) = mset (map f xs)"
  using mset_rotate'[of k "map f xs"] by (simp add: rotate_map)

lemma seg_ends_turned: "mset (map seg_ends (turned cyc)) = mset (map seg_ends cyc)"
proof -
  have "map seg_ends (turned cyc) = map seg_ends (rev cyc)"
    by (auto simp: turned_def seg_ends_def add_mset_commute)
  then show ?thesis by (simp flip: rev_map)
qed

lemma reading_links:
  assumes rc: "reading_closes R" and hd: "hd R = (a, b)"
    and m: "mset (map seg_ends R) = mset (map mset ([a, b] # rest))"
  shows "link_loop rest [a, b] = Some (Some ([a, b] @ map snd (tl R))) \<and>
         length ([a, b] @ map snd (tl R)) = length ([a, b] # rest) + 1 \<and>
         near (last ([a, b] @ map snd (tl R))) a \<and>
         mset (map mset rest) = mset (map seg_ends (tl R))"
proof -
  from rc hd obtain segs where R: "R = (a, b) # segs" and ne: "segs \<noteq> []"
    and ch: "chainable b segs" and cl: "near (snd (last segs)) a"
    by (cases R) (auto simp: reading_closes_def)
  from m R have m': "mset (map mset rest) = mset (map seg_ends segs)"
    by (simp add: seg_ends_def)
  then have "length (map mset rest) = length (map seg_ends segs)" by (metis size_mset)
  then have len: "length rest = length segs" by simp
  from ch have "chainable (last [a, b]) segs" by simp
  from link_path[OF this m'] have "link_loop rest [a, b] = Some (Some ([a, b] @ map snd segs))" .
  moreover have "last ([a, b] @ map snd segs) = snd (last segs)" using ne by (simp add: last_map)
  ultimately show ?thesis using R len cl m' by simp
qed

text \<open>
  C1, as amended. When the pairs of a cell form a single consistent cycle of \<open>n \<ge> 3\<close>
  two-point segments, whatever their order in the list and the order of their two
  points, the loop reconstruction succeeds and uses every pair once: the chain is the two
  points of the first pair followed by one point for each other pair, the far end of
  each segment in the order of the cycle. Its length is \<open>n + 1\<close>, not \<open>n\<close>: its last
  point is the far end of the closing segment, within the tolerance of its first point.
\<close>

theorem cycle_closes:
  assumes "pairs_form_cycle pairs cyc"
  shows "\<exists>segs. link_loop (tl pairs) (hd pairs) = Some (Some (hd pairs @ map snd segs)) \<and>
           mset (map mset (tl pairs)) = mset (map seg_ends segs) \<and>
           length (hd pairs @ map snd segs) = length pairs + 1 \<and>
           near (last (hd pairs @ map snd segs)) (hd (hd pairs))"
proof -
  from assms have n: "3 \<le> length cyc"
    and rd: "\<forall>k < length cyc. reading_closes (rotate k cyc) \<and> reading_closes (rotate k (turned cyc))"
    and m: "mset (map mset pairs) = mset (map seg_ends cyc)"
    by (auto simp: pairs_form_cycle_def segment_cycle_def list_all_iff)
  from m have "length (map mset pairs) = length (map seg_ends cyc)" by (metis size_mset)
  with n have "pairs \<noteq> []" by auto
  then obtain first rest where p: "pairs = first # rest" by (cases pairs) auto
  then have "mset first \<in># mset (map mset pairs)" by simp
  with m have "mset first \<in># mset (map seg_ends cyc)" by simp
  then obtain s where s: "s \<in> set cyc" "mset first = seg_ends s" by auto
  then obtain k where k: "k < length cyc" "cyc ! k = s" by (auto simp: in_set_conv_nth)
  obtain a b where ab: "s = (a, b)" by (cases s)
  from s(2) ab mset_two[of first a b] have "first = [a, b] \<or> first = [b, a]"
    by (simp add: seg_ends_def)
  then show ?thesis
  proof
    assume f: "first = [a, b]"
    let ?R = "rotate k cyc"
    from n have "cyc \<noteq> []" by auto
    from hd_rotate_conv_nth[OF this, of k] k ab have h: "hd ?R = (a, b)" by simp
    have "mset (map seg_ends ?R) = mset (map seg_ends cyc)" by (rule mset_map_rotate)
    with m p f have "mset (map seg_ends ?R) = mset (map mset ([a, b] # rest))" by simp
    moreover from rd k(1) have "reading_closes ?R" by blast
    ultimately have "link_loop rest [a, b] = Some (Some ([a, b] @ map snd (tl ?R))) \<and>
         length ([a, b] @ map snd (tl ?R)) = length ([a, b] # rest) + 1 \<and>
         near (last ([a, b] @ map snd (tl ?R))) a \<and>
         mset (map mset rest) = mset (map seg_ends (tl ?R))"
      using h by (intro reading_links)
    with p f show ?thesis by (intro exI[of _ "tl ?R"]) simp
  next
    assume f: "first = [b, a]"
    let ?k = "length cyc - 1 - k"
    let ?R = "rotate ?k (turned cyc)"
    from n have ne: "turned cyc \<noteq> []" by (auto simp: turned_def)
    from k(1) have k': "?k < length cyc" by simp
    have "turned cyc ! ?k = (b, a)"
      using k ab by (simp add: turned_def rev_nth)
    with hd_rotate_conv_nth[OF ne, of ?k] k' have h: "hd ?R = (b, a)"
      by (simp add: turned_def)
    have "mset (map seg_ends ?R) = mset (map seg_ends (turned cyc))" by (rule mset_map_rotate)
    with m p f seg_ends_turned[of cyc]
    have "mset (map seg_ends ?R) = mset (map mset ([b, a] # rest))" by simp
    moreover from rd k' have "reading_closes ?R" by blast
    ultimately have "link_loop rest [b, a] = Some (Some ([b, a] @ map snd (tl ?R))) \<and>
         length ([b, a] @ map snd (tl ?R)) = length ([b, a] # rest) + 1 \<and>
         near (last ([b, a] @ map snd (tl ?R))) b \<and>
         mset (map mset rest) = mset (map seg_ends (tl ?R))"
      using h by (intro reading_links)
    with p f show ?thesis by (intro exI[of _ "tl ?R"]) simp
  qed
qed

theorem cycle_closes_witness:
  "pairs_form_cycle
     [[(0, 0, 0), (1, 0, 0)], [(0, 1, 0), (0, 0, 0)], [(1, 0, 0), (0, 1, 0)]]
     [((0, 0, 0), (1, 0, 0)), ((1, 0, 0), (0, 1, 0)), ((0, 1, 0), (0, 0, 0))] \<and>
   (\<exists>segs :: (point \<times> point) list. link_loop [[(0, 1, 0), (0, 0, 0)], [(1, 0, 0), (0, 1, 0)]] [(0, 0, 0), (1, 0, 0)] =
             Some (Some ([(0, 0, 0), (1, 0, 0)] @ map snd segs)) \<and>
           length ([(0, 0, 0), (1, 0, 0)] @ map snd segs) = 3 + 1)"
proof -
  have h: "pairs_form_cycle
     [[(0, 0, 0), (1, 0, 0)], [(0, 1, 0), (0, 0, 0)], [(1, 0, 0), (0, 1, 0)]]
     [((0, 0, 0), (1, 0, 0)), ((1, 0, 0), (0, 1, 0)), ((0, 1, 0), (0, 0, 0))]"
    by (simp add: pairs_form_cycle_def segment_cycle_def reading_closes_def turned_def
        seg_ends_def epsilon_def round64_numeral upt_conv_Cons rotate_def eval_nat_numeral)
  have "\<exists>segs :: (point \<times> point) list. link_loop [[(0, 1, 0), (0, 0, 0)], [(1, 0, 0), (0, 1, 0)]] [(0, 0, 0), (1, 0, 0)] =
             Some (Some ([(0, 0, 0), (1, 0, 0)] @ map snd segs)) \<and>
           length ([(0, 0, 0), (1, 0, 0)] @ map snd segs) = 3 + 1"
    using cycle_closes[OF h]
  proof (elim exE conjE)
    fix segs :: "(point \<times> point) list"
    assume a: "link_loop
        (tl [[(0, 0, 0), (1, 0, 0)], [(0, 1, 0), (0, 0, 0)], [(1, 0, 0), (0, 1, 0)]])
        (hd [[(0, 0, 0), (1, 0, 0)], [(0, 1, 0), (0, 0, 0)], [(1, 0, 0), (0, 1, 0)]]) =
        Some (Some (hd [[(0, 0, 0), (1, 0, 0)], [(0, 1, 0), (0, 0, 0)], [(1, 0, 0), (0, 1, 0)]] @
                    map snd segs))"
      and b: "length (hd [[(0, 0, 0), (1, 0, 0)], [(0, 1, 0), (0, 0, 0)], [(1, 0, 0), (0, 1, 0)]] @
                      map snd segs) =
              length [[(0, 0, 0), (1, 0, 0)], [(0, 1, 0), (0, 0, 0)], [(1, 0, 0), (0, 1, 0::real)]] + 1"
    from a b
    have "link_loop [[(0, 1, 0), (0, 0, 0)], [(1, 0, 0), (0, 1, 0)]] [(0, 0, 0), (1, 0, 0)] =
             Some (Some ([(0, 0, 0), (1, 0, 0)] @ map snd segs)) \<and>
           length ([(0, 0, 0), (1, 0, 0)] @ map snd segs) = 3 + 1" by simp
    then show ?thesis by (rule exI[of _ segs])
  qed
  with h show ?thesis by (rule conjI)
qed

lemma tetra_cross_pairs:
  "fst (cell_pairs cross_cut (vertices tetra) (cell_faces tetra [0, 1, 2, 3])) =
     Inr [[(1, 2, 0), (0, 2, 0)], [(1, 3, 0), (0, 3, 0)], [(0, 2, 0), (0, 3, 0)], [(1, 2, 0), (1, 3, 0)]]"
  by (simp add: tetra_def cross_cut_def cell_faces_def js_nth_def face_pair_def face_edges_def
      upt_conv_Cons)

lemma tetra_cross_cycle:
  "pairs_form_cycle
     [[(1, 2, 0), (0, 2, 0)], [(1, 3, 0), (0, 3, 0)], [(0, 2, 0), (0, 3, 0)], [(1, 2, 0), (1, 3, 0)]]
     [((1, 2, 0), (0, 2, 0)), ((0, 2, 0), (0, 3, 0)), ((0, 3, 0), (1, 3, 0)), ((1, 3, 0), (1, 2, 0))]"
  by (simp add: pairs_form_cycle_def segment_cycle_def reading_closes_def turned_def
      seg_ends_def epsilon_def round64_numeral upt_conv_Cons rotate_def eval_nat_numeral add_mset_commute)

lemma tetra_cross_chain:
  "link_loop [[(1, 3, 0), (0, 3, 0)], [(0, 2, 0), (0, 3, 0)], [(1, 2, 0), (1, 3, 0)]]
     [(1, 2, 0), (0, 2, 0)] =
     Some (Some [(1, 2, 0), (0, 2, 0), (0, 3, 0), (1, 3, 0), (1, 2, 0)])"
  by (simp add: link_loop_Cons link_loop_Nil Let_def epsilon_def round64_numeral)

text \<open>
  The claim as stated fails on the tetrahedron cut in a quadrilateral: the pairs of its
  four faces form a cycle of four segments, and the chain has five points.
\<close>

theorem cycle_chain_length_counterexample:
  "fst (cell_pairs cross_cut (vertices tetra) (cell_faces tetra [0, 1, 2, 3])) =
     Inr [[(1, 2, 0), (0, 2, 0)], [(1, 3, 0), (0, 3, 0)], [(0, 2, 0), (0, 3, 0)], [(1, 2, 0), (1, 3, 0)]] \<and>
   pairs_form_cycle
     [[(1, 2, 0), (0, 2, 0)], [(1, 3, 0), (0, 3, 0)], [(0, 2, 0), (0, 3, 0)], [(1, 2, 0), (1, 3, 0)]]
     [((1, 2, 0), (0, 2, 0)), ((0, 2, 0), (0, 3, 0)), ((0, 3, 0), (1, 3, 0)), ((1, 3, 0), (1, 2, 0))] \<and>
   link_loop [[(1, 3, 0), (0, 3, 0)], [(0, 2, 0), (0, 3, 0)], [(1, 2, 0), (1, 3, 0)]]
     [(1, 2, 0), (0, 2, 0)] =
     Some (Some [(1, 2, 0), (0, 2, 0), (0, 3, 0), (1, 3, 0), (1, 2, 0)]) \<and>
   length [(1, 2, 0), (0, 2, 0), (0, 3, 0), (1, 3, 0), (1::real, 2::real, 0::real)] \<noteq>
   length [[(1, 2, 0), (0, 2, 0)], [(1, 3, 0), (0, 3, 0)], [(0, 2, 0), (0, 3, 0)],
           [(1, 2, 0), (1::real, 3::real, 0::real)]]"
  using tetra_cross_pairs tetra_cross_cycle tetra_cross_chain by simp

subsection \<open>Giving a cell up\<close>


lemma scan_no_match: "no_match d ps \<Longrightarrow> scan d ps l = (ps, l)"
  by (induction ps) (auto simp: no_match_def Let_def)

lemma loop_after_link:
  "loop_after k ps0 l0 = Some (ps, l) \<Longrightarrow> link_loop ps0 l0 = link_loop ps l"
proof (induction k arbitrary: ps0 l0)
  case 0
  then show ?case by simp
next
  case (Suc k)
  obtain ps' l' where sc: "scan (last l0) ps0 l0 = (ps', l')"
    by (cases "scan (last l0) ps0 l0") auto
  from Suc.prems sc have ne: "ps0 \<noteq> []" and nl: "length ps0 \<noteq> length ps'"
    and la: "loop_after k ps' l' = Some (ps, l)"
    by (auto split: if_splits)
  from link_loop_step[OF ne sc] nl Suc.IH[OF la] show ?case by simp
qed

lemma link_loop_no_match: "ps \<noteq> [] \<Longrightarrow> no_match (last l) ps \<Longrightarrow> link_loop ps l = Some None"
  using link_loop_step[OF _ scan_no_match, of ps l] by simp

text \<open>
  C4. A cell whose face indices are in range and whose pairs enter the loop
  reconstruction is given up as soon as a full scan finds no pair with a point within
  the tolerance of the chain's last point, after any number of iterations that did find
  one. No error is raised, and the frame after the cell is the frame before it: the
  vertex counter, the triangle and edge indices, the three geometries and the record of
  the stores are unchanged.
\<close>

theorem abandoned_cell_emits_nothing:
  assumes "cell_pairs r (vertices sh) (cell_faces sh cell) = (Inr pairs, calls)"
    and "2 < length pairs"
    and "loop_after k (tl pairs) (hd pairs) = Some (ps, l)"
    and "ps \<noteq> []" and "no_match (last l) ps"
  shows "slice_cell e opts cg r sh fr (cell, cellIndex) = Some (Inr fr, calls)"
proof -
  have "link_loop (tl pairs) (hd pairs) = Some None"
    using loop_after_link[OF assms(3)] link_loop_no_match[OF assms(4,5)] by simp
  with assms(1,2) show ?thesis by (simp add: slice_cell_def)
qed

theorem abandoned_cell_emits_nothing_witness:
  "cell_pairs rising_cut (vertices tetra) (cell_faces tetra [0, 1, 2, 3]) =
     (Inr [[(0, 1, 0), (1, 2, 0)], [(0, 1, 0), (1, 3, 0)], [(0, 2, 0), (2, 3, 0)], [(1, 2, 0), (2, 3, 0)]],
      [(Some 0, Some 1), (Some 1, Some 2), (Some 2, Some 0),
       (Some 0, Some 1), (Some 1, Some 3), (Some 3, Some 0),
       (Some 0, Some 2), (Some 2, Some 3), (Some 3, Some 0),
       (Some 1, Some 2), (Some 2, Some 3), (Some 3, Some 1)]) \<and>
   loop_after 2 [[(0, 1, 0), (1, 3, 0)], [(0, 2, 0), (2, 3, 0)], [(1, 2, 0), (2, 3, 0)]]
     [(0, 1, 0), (1, 2, 0)] =
     Some ([[(0, 1, 0), (1, 3, 0)]], [(0, 1, 0), (1, 2, 0), (2, 3, 0), (0, 2, 0)]) \<and>
   no_match (0, 2, 0) [[(0, 1, 0), (1, 3, 0)]] \<and>
   slice_cell plain_engine all_options grey rising_cut tetra
     (start_frame (alloc tetra all_options)) ([0, 1, 2, 3], 0) =
     Some (Inr (start_frame (alloc tetra all_options)),
       [(Some 0, Some 1), (Some 1, Some 2), (Some 2, Some 0),
        (Some 0, Some 1), (Some 1, Some 3), (Some 3, Some 0),
        (Some 0, Some 2), (Some 2, Some 3), (Some 3, Some 0),
        (Some 1, Some 2), (Some 2, Some 3), (Some 3, Some 1)])"
proof -
  have h2: "cell_pairs rising_cut (vertices tetra) (cell_faces tetra [0, 1, 2, 3]) =
     (Inr [[(0, 1, 0), (1, 2, 0)], [(0, 1, 0), (1, 3, 0)], [(0, 2, 0), (2, 3, 0)], [(1, 2, 0), (2, 3, 0)]],
      [(Some 0, Some 1), (Some 1, Some 2), (Some 2, Some 0),
       (Some 0, Some 1), (Some 1, Some 3), (Some 3, Some 0),
       (Some 0, Some 2), (Some 2, Some 3), (Some 3, Some 0),
       (Some 1, Some 2), (Some 2, Some 3), (Some 3, Some 1)])"
    by (simp add: tetra_def rising_cut_def cell_faces_def js_nth_def face_pair_def face_edges_def
        upt_conv_Cons)
  have h3: "2 < length [[(0, 1, 0), (1, 2, 0)], [(0, 1, 0), (1, 3, 0)], [(0, 2, 0), (2, 3, 0)],
                        [(1, 2, 0), (2, 3, 0::real)]]"
    by simp
  have h4: "loop_after 2
      (tl [[(0, 1, 0), (1, 2, 0)], [(0, 1, 0), (1, 3, 0)], [(0, 2, 0), (2, 3, 0)], [(1, 2, 0), (2, 3, 0)]])
      (hd [[(0, 1, 0), (1, 2, 0)], [(0, 1, 0), (1, 3, 0)], [(0, 2, 0), (2, 3, 0)], [(1, 2, 0), (2, 3, 0)]]) =
     Some ([[(0, 1, 0), (1, 3, 0)]], [(0, 1, 0), (1, 2, 0), (2, 3, 0), (0, 2, 0)])"
    by (simp add: numeral_2_eq_2 Let_def epsilon_def round64_numeral)
  have h5: "[[(0, 1, 0), (1, 3, 0::real)]] \<noteq> []" by simp
  have h6: "no_match (last [(0, 1, 0), (1, 2, 0), (2, 3, 0), (0, 2, 0)]) [[(0, 1, 0), (1, 3, 0)]]"
    by (simp add: no_match_def epsilon_def round64_numeral)
  from abandoned_cell_emits_nothing[OF h2 h3 h4 h5 h6,
      of plain_engine all_options grey "start_frame (alloc tetra all_options)" 0]
    h2 h4 h6
  show ?thesis by simp
qed

subsection \<open>Which faces contribute, and when a cell is skipped\<close>

lemma cell_pairs_fst:
  "fst (cell_pairs r vs fs) =
     (if None \<in> set fs then Inl TypeError
      else Inr (filter (\<lambda>pair. 1 < length pair) (map (\<lambda>f. fst (face_pair r vs (the f))) fs)))"
  by (induction r vs fs rule: cell_pairs.induct) (auto split: prod.splits sum.splits if_splits)

text \<open>
  C5, as amended. A face whose edges give fewer than two intersection points, counted as
  the truthy results of \<^verbatim>\<open>slice\<close> whether or not they are equal, adds no pair to
  the pairs of its cell. A cell with at most two pairs is skipped: the loop
  reconstruction is not run and the frame is unchanged.
\<close>

theorem few_points_no_pair:
  "(length (fst (face_pair r vs face)) < 2 \<longrightarrow>
      fst (cell_pairs r vs (before @ Some face # after)) = fst (cell_pairs r vs (before @ after))) \<and>
   (fst (cell_pairs r (vertices sh) (cell_faces sh cell)) = Inr pairs \<and> \<not> 2 < length pairs \<longrightarrow>
      slice_cell e opts cg r sh fr (cell, cellIndex) =
        Some (Inr fr, snd (cell_pairs r (vertices sh) (cell_faces sh cell))))"
proof (intro conjI impI)
  assume "length (fst (face_pair r vs face)) < 2"
  then show "fst (cell_pairs r vs (before @ Some face # after)) = fst (cell_pairs r vs (before @ after))"
    by (simp add: cell_pairs_fst)
next
  assume a: "fst (cell_pairs r (vertices sh) (cell_faces sh cell)) = Inr pairs \<and> \<not> 2 < length pairs"
  obtain res calls where
    cp: "cell_pairs r (vertices sh) (cell_faces sh cell) = (res, calls)"
    by (cases "cell_pairs r (vertices sh) (cell_faces sh cell)") auto
  with a show "slice_cell e opts cg r sh fr (cell, cellIndex) =
        Some (Inr fr, snd (cell_pairs r (vertices sh) (cell_faces sh cell)))"
    by (simp add: slice_cell_def)
qed

theorem few_points_no_pair_witness:
  "length (fst (face_pair rising_cut [0, 1, 2, 3] [2, 1, 0])) < 2 \<and>
   fst (cell_pairs rising_cut [0, 1, 2, 3] ([Some [0, 1, 2]] @ Some [2, 1, 0] # [Some [0, 1, 3]])) =
   fst (cell_pairs rising_cut [0, 1, 2, 3] ([Some [0, 1, 2]] @ [Some [0, 1, 3]])) \<and>
   fst (cell_pairs rising_cut (vertices (tetra\<lparr>cells := [[0, 1]]\<rparr>))
          (cell_faces (tetra\<lparr>cells := [[0, 1]]\<rparr>) [0, 1])) =
     Inr [[(0, 1, 0), (1, 2, 0)], [(0, 1, 0), (1, 3, 0)]] \<and>
   slice_cell plain_engine all_options grey rising_cut (tetra\<lparr>cells := [[0, 1]]\<rparr>)
     (start_frame (alloc (tetra\<lparr>cells := [[0, 1]]\<rparr>) all_options)) ([0, 1], 0) =
   Some (Inr (start_frame (alloc (tetra\<lparr>cells := [[0, 1]]\<rparr>) all_options)),
         [(Some 0, Some 1), (Some 1, Some 2), (Some 2, Some 0),
          (Some 0, Some 1), (Some 1, Some 3), (Some 3, Some 0)])"
proof -
  have h1: "length (fst (face_pair rising_cut [0, 1, 2, 3] [2, 1, 0])) < 2"
    by (simp add: rising_cut_def face_pair_def face_edges_def js_nth_def upt_conv_Cons)
  have h2: "fst (cell_pairs rising_cut (vertices (tetra\<lparr>cells := [[0, 1]]\<rparr>))
                   (cell_faces (tetra\<lparr>cells := [[0, 1]]\<rparr>) [0, 1])) =
              Inr [[(0, 1, 0), (1, 2, 0)], [(0, 1, 0), (1, 3, 0)]]"
    by (simp add: tetra_def rising_cut_def cell_faces_def face_pair_def face_edges_def js_nth_def
        upt_conv_Cons)
  have c: "snd (cell_pairs rising_cut (vertices (tetra\<lparr>cells := [[0, 1]]\<rparr>))
                        (cell_faces (tetra\<lparr>cells := [[0, 1]]\<rparr>) [0, 1])) =
     [(Some 0, Some 1), (Some 1, Some 2), (Some 2, Some 0),
                      (Some 0, Some 1), (Some 1, Some 3), (Some 3, Some 0)]"
    by (simp add: tetra_def rising_cut_def cell_faces_def face_pair_def face_edges_def js_nth_def
        upt_conv_Cons)
  from few_points_no_pair[where r = rising_cut and vs = "[0, 1, 2, 3]" and face = "[2, 1, 0]"
      and before = "[Some [0, 1, 2]]" and after = "[Some [0, 1, 3]]"
      and sh = "tetra\<lparr>cells := [[0, 1]]\<rparr>" and cell = "[0, 1]" and e = plain_engine
      and opts = all_options and cg = grey
      and pairs = "[[(0, 1, 0), (1, 2, 0)], [(0, 1, 0), (1, 3, 0)]]"
      and fr = "start_frame (alloc (tetra\<lparr>cells := [[0, 1]]\<rparr>) all_options)"
      and cellIndex = 0] h1 h2 c
  show ?thesis by simp
qed

text \<open>
  The claim as stated counts distinct points. The code counts results: a face whose
  three edges are all cut in the same point holds one distinct point and still adds a
  pair.
\<close>

theorem repeated_point_counterexample:
  "card (set (fst (face_pair same_cut (vertices tetra) [0, 1, 2]))) < 2 \<and>
   fst (cell_pairs same_cut (vertices tetra) ([] @ Some [0, 1, 2] # [])) \<noteq>
   fst (cell_pairs same_cut (vertices tetra) ([] @ []))"
  by (simp add: same_cut_def tetra_def face_pair_def face_edges_def js_nth_def upt_conv_Cons)

section \<open>Stores into the typed arrays\<close>

lemma put3_eq:
  "put3 e n p arr =
     (case p of (x, y, z) \<Rightarrow>
        arr[3 * n := fround e x, 3 * n + 1 := fround e y, 3 * n + 2 := fround e z])"
  by (cases p) (simp add: put3_def store3_def store_def)

lemma store3_eq: "store3 e n p (arr, stored) = (put3 e n p arr, stored @ slots n)"
  by (cases p) (simp add: put3_def store3_def store_def slots_def)

lemma length_put3 [simp]: "length (put3 e n p arr) = length arr"
  by (cases p) (simp add: put3_eq)

lemma apply_writes_Nil [simp]: "apply_writes [] arr = arr"
  by (simp add: apply_writes_def)

lemma apply_writes_Cons [simp]: "apply_writes (w # ws) arr = apply_writes ws (arr[fst w := snd w])"
  by (simp add: apply_writes_def)

lemma apply_writes_append [simp]:
  "apply_writes (ws @ ws') arr = apply_writes ws' (apply_writes ws arr)"
  by (simp add: apply_writes_def)

lemma length_apply_writes [simp]: "length (apply_writes ws arr) = length arr"
  by (induction ws arbitrary: arr) simp_all

lemma apply_writes_absorb:
  "(apply_writes ws (a[k := v]))[k := v] = (apply_writes ws a)[k := v]"
proof (induction ws arbitrary: a)
  case Nil
  then show ?case by simp
next
  case (Cons w ws)
  show ?case
  proof (cases "fst w = k")
    case True
    then show ?thesis using Cons.IH[of "a[k := snd w]"] by simp
  next
    case False
    then have "a[k := v, fst w := snd w] = a[fst w := snd w, k := v]"
      by (simp add: list_update_swap)
    then show ?thesis using Cons.IH[of "a[fst w := snd w]"] by simp
  qed
qed

lemma apply_writes_idem: "apply_writes ws (apply_writes ws arr) = apply_writes ws arr"
proof (induction ws arbitrary: arr rule: rev_induct)
  case Nil
  then show ?case by simp
next
  case (snoc w ws)
  have "apply_writes (ws @ [w]) (apply_writes (ws @ [w]) arr) =
          (apply_writes ws ((apply_writes ws arr)[fst w := snd w]))[fst w := snd w]"
    by simp
  also have "\<dots> = (apply_writes ws (apply_writes ws arr))[fst w := snd w]"
    by (rule apply_writes_absorb)
  also have "\<dots> = apply_writes (ws @ [w]) arr" by (simp add: snoc.IH)
  finally show ?case .
qed

lemma put3_writes: "put3 e n p arr = apply_writes (put3_writes e n p) arr"
  by (cases p) (simp add: put3_eq put3_writes_def)

lemma colors_none: "map_option (apply_writes []) c = c"
  by (cases c) simp_all

lemma colors_append:
  "map_option (apply_writes ws') (map_option (apply_writes ws) c) =
     map_option (apply_writes (ws @ ws')) c"
  by (cases c) simp_all

lemma colors_idem:
  "map_option (apply_writes ws) (map_option (apply_writes ws) c) = map_option (apply_writes ws) c"
  by (cases c) (simp_all add: apply_writes_idem)

lemma stamp_none [simp]: "stamp ([], []) og = og"
  by (cases og) (simp_all add: stamp_def colors_none)

lemma stamp_stamp: "stamp w' (stamp w og) = stamp (fst w @ fst w', snd w @ snd w') og"
  by (cases og) (simp_all add: stamp_def colors_append)

lemma stamp_idem: "stamp w (stamp w og) = stamp w og"
  by (cases og) (simp_all add: stamp_def colors_idem apply_writes_idem)

lemma stamps_none [simp]: "stamps no_writes G = G"
  by (simp add: stamps_def no_writes_def)

lemma stamps_stamps: "stamps W' (stamps W G) = stamps (then_writes W W') G"
  by (simp add: stamps_def then_writes_def stamp_stamp)

lemma stamps_idem: "stamps W (stamps W G) = stamps W G"
  by (simp add: stamps_def stamp_idem)

lemma writable_stamp [simp]: "writable opts (stamp w og) = writable opts og"
  by (cases og; cases "color (the og)") (simp_all add: writable_def stamp_def)

lemma usable_stamps [simp]: "usable opts (stamps W G) = usable opts G"
  by (simp add: usable_def stamps_def)

lemma has_capacity_stamp [simp]:
  "has_capacity opts flag n (stamp w og) = has_capacity opts flag n og"
  by (cases og; cases "color (the og)") (simp_all add: has_capacity_def stamp_def)

lemma has_capacity_writable: "has_capacity opts True n og \<Longrightarrow> writable opts og"
  by (cases og; cases "color (the og)") (auto simp: has_capacity_def writable_def split: if_splits)

text \<open>
  The stores of one point into one geometry do not depend on what the arrays hold: they
  are a fixed list of writes, made at the slots of the vertex, or they fail because the
  geometry or its colour array is missing.
\<close>

lemma write_vertex_stamp:
  "write_vertex e opts rgb n p (og, stored) =
     (if writable opts og
      then Inr (stamp (block_writes e opts True n p rgb) og, stored @ block_slots opts True n)
      else Inl TypeError)"
  by (cases og; cases "color (the og)")
    (simp_all add: write_vertex_def writable_def and_then_def store3_eq block_slots_def
      block_writes_def stamp_def put3_writes)

lemma emit_block_stamp:
  "emit_block flag e opts rgb n p (og, stored) =
     (if flag \<and> \<not> writable opts og then Inl TypeError
      else Inr (stamp (block_writes e opts flag n p rgb) og, stored @ block_slots opts flag n))"
  by (simp add: emit_block_def write_vertex_stamp block_writes_def block_slots_def)

lemma set_geoms_simps [simp]:
  "fr_i (set_geoms fr G) = fr_i fr"
  "fr_indices (set_geoms fr G) = fr_indices fr"
  "fr_edgeIndices (set_geoms fr G) = fr_edgeIndices fr"
  "fr_stored (set_geoms fr G) = fr_stored fr"
  "fr_geometry (set_geoms fr G) = fst G"
  "fr_edgeGeometry (set_geoms fr G) = fst (snd G)"
  "fr_pointGeometry (set_geoms fr G) = snd (snd G)"
  "geoms_of (set_geoms fr G) = G"
  "set_geoms fr (geoms_of fr) = fr"
  "set_geoms (set_geoms fr G) G' = set_geoms fr G'"
  "(set_geoms fr G)\<lparr>fr_i := a\<rparr> = set_geoms (fr\<lparr>fr_i := a\<rparr>) G"
  "(set_geoms fr G)\<lparr>fr_indices := b\<rparr> = set_geoms (fr\<lparr>fr_indices := b\<rparr>) G"
  "(set_geoms fr G)\<lparr>fr_edgeIndices := c\<rparr> = set_geoms (fr\<lparr>fr_edgeIndices := c\<rparr>) G"
  "(set_geoms fr G)\<lparr>fr_stored := d\<rparr> = set_geoms (fr\<lparr>fr_stored := d\<rparr>) G"
  by (simp_all add: set_geoms_def geoms_of_def)

lemma emit_point_stamp:
  "emit_point e opts cg ci fr (p, pairIndex) =
     (if usable opts (geoms_of fr)
      then Inr (set_geoms
                  (fr\<lparr>fr_stored := fr_stored fr @ point_slots opts (fr_i fr),
                      fr_i := fr_i fr + 1\<rparr>)
                  (stamps (point_writes e opts cg ci (fr_i fr) p pairIndex) (geoms_of fr)))
      else Inl TypeError)"
  by (simp add: emit_point_def emit_block_stamp and_then_def usable_def geoms_of_def
      set_geoms_def stamps_def point_writes_def point_slots_def)

section \<open>The size of the buffers\<close>

lemma frame_capacity_usable: "frame_capacity opts n fr \<Longrightarrow> usable opts (geoms_of fr)"
  by (auto simp: frame_capacity_def usable_def geoms_of_def intro: has_capacity_writable)

lemma frame_capacity_stamps:
  "frame_capacity opts n (set_geoms fr (stamps W G)) = frame_capacity opts n (set_geoms fr G)"
  by (simp add: frame_capacity_def stamps_def)

lemma frame_capacity_fields [simp]:
  "frame_capacity opts n (fr\<lparr>fr_i := a\<rparr>) = frame_capacity opts n fr"
  "frame_capacity opts n (fr\<lparr>fr_indices := b\<rparr>) = frame_capacity opts n fr"
  "frame_capacity opts n (fr\<lparr>fr_edgeIndices := c\<rparr>) = frame_capacity opts n fr"
  "frame_capacity opts n (fr\<lparr>fr_stored := d\<rparr>) = frame_capacity opts n fr"
  by (simp_all add: frame_capacity_def)

lemma length_point_slots: "length (point_slots opts i) = 3 * arrays_written opts"
  by (simp add: point_slots_def block_slots_def slots_def arrays_written_def)

lemma set_point_slots: "k \<in> set (point_slots opts i) \<Longrightarrow> k < 3 * (i + 1)"
  by (auto simp: point_slots_def block_slots_def slots_def split: if_splits)

lemma emit_point_ok:
  assumes cap: "frame_capacity opts n fr" and lg: "stores_below_counter opts fr"
  shows "\<exists>fr'. emit_point e opts cg ci fr x = Inr fr' \<and> fr_i fr' = fr_i fr + 1 \<and>
           frame_capacity opts n fr' \<and> stores_below_counter opts fr'"
proof -
  obtain p pairIndex where x: "x = (p, pairIndex)" by (cases x)
  let ?fr = "set_geoms
               (fr\<lparr>fr_stored := fr_stored fr @ point_slots opts (fr_i fr), fr_i := fr_i fr + 1\<rparr>)
               (stamps (point_writes e opts cg ci (fr_i fr) p pairIndex) (geoms_of fr))"
  have 1: "emit_point e opts cg ci fr x = Inr ?fr"
    using frame_capacity_usable[OF cap] by (simp add: x emit_point_stamp)
  have "frame_capacity opts n (set_geoms fr (geoms_of fr))" using cap by simp
  then have 2: "frame_capacity opts n ?fr"
    by (simp add: frame_capacity_stamps flip: set_geoms_simps(11,14))
  have "\<forall>k \<in> set (fr_stored fr). k < 3 * (fr_i fr + 1)"
    using lg by (fastforce simp: stores_below_counter_def list_all_iff)
  then have 3: "stores_below_counter opts ?fr"
    using lg set_point_slots[of _ opts "fr_i fr"]
    by (auto simp: stores_below_counter_def list_all_iff length_point_slots algebra_simps)
  from 1 2 3 show ?thesis by auto
qed

lemma emit_points_ok:
  assumes "frame_capacity opts n fr" and "stores_below_counter opts fr"
  shows "\<exists>fr'. emit_points e opts cg ci fr xs = Inr fr' \<and> fr_i fr' = fr_i fr + length xs \<and>
           frame_capacity opts n fr' \<and> stores_below_counter opts fr'"
  using assms
proof (induction xs arbitrary: fr)
  case Nil
  then show ?case by simp
next
  case (Cons x xs)
  from emit_point_ok[OF Cons.prems, of e cg ci x] obtain fr1 where
    1: "emit_point e opts cg ci fr x = Inr fr1" "fr_i fr1 = fr_i fr + 1"
      "frame_capacity opts n fr1" "stores_below_counter opts fr1" by blast
  from Cons.IH[OF 1(3,4)] obtain fr' where
    2: "emit_points e opts cg ci fr1 xs = Inr fr'" "fr_i fr' = fr_i fr1 + length xs"
      "frame_capacity opts n fr'" "stores_below_counter opts fr'" by blast
  from 1 2 show ?case by (simp add: and_then_def)
qed

lemma stores_below_counter_fields [simp]:
  "stores_below_counter opts (fr\<lparr>fr_indices := b\<rparr>) = stores_below_counter opts fr"
  "stores_below_counter opts (fr\<lparr>fr_edgeIndices := c\<rparr>) = stores_below_counter opts fr"
  by (simp_all add: stores_below_counter_def)

lemma emit_cell_ok:
  assumes "frame_capacity opts n fr" and "stores_below_counter opts fr" and "2 \<le> length chain"
  shows "\<exists>fr'. emit_cell e opts cg ci chain fr = Inr fr' \<and> fr_i fr' = fr_i fr + length chain \<and>
           frame_capacity opts n fr' \<and> stores_below_counter opts fr'"
proof -
  define fr1 where "fr1 = (if useFaces opts
     then fr\<lparr>fr_indices := fr_indices fr @
              concat (map (\<lambda>j. [fr_i fr, fr_i fr + j + 1, fr_i fr + j + 2]) [0..<length chain - 2])\<rparr>
     else fr)"
  define fr2 where "fr2 = (if useEdges opts
     then fr1\<lparr>fr_edgeIndices := fr_edgeIndices fr1 @
              concat (map (\<lambda>j. [fr_i fr + j, fr_i fr + ((j + 1) mod length chain)]) [0..<length chain])\<rparr>
     else fr1)"
  have eq: "emit_cell e opts cg ci chain fr =
              emit_points e opts cg ci fr2 (zip chain [0..<length chain])"
    using assms(3) by (simp add: emit_cell_def Let_def fr1_def fr2_def)
  have "frame_capacity opts n fr2" "stores_below_counter opts fr2" "fr_i fr2 = fr_i fr"
    using assms(1,2) by (simp_all add: fr1_def fr2_def)
  from emit_points_ok[OF this(1,2), of e cg ci "zip chain [0..<length chain]"] this(3) eq
  show ?thesis by simp
qed

lemma cell_faces_valid:
  "\<forall>fi \<in> set cell. fi < length (faces sh) \<Longrightarrow>
     cell_faces sh cell = map Some (map (\<lambda>fi. faces sh ! fi) cell)"
  by (simp add: cell_faces_def js_nth_def)

lemma slice_cell_bound:
  assumes valid: "\<forall>fi \<in> set cell. fi < length (faces sh) \<and>
                    length (fst (face_pair r (vertices sh) (faces sh ! fi))) \<le> 2"
    and cap: "frame_capacity opts n fr" and lg: "stores_below_counter opts fr"
  shows "\<exists>fr' calls. slice_cell e opts cg r sh fr (cell, ci) = Some (Inr fr', calls) \<and>
           fr_i fr' \<le> fr_i fr + 2 * length cell \<and> frame_capacity opts n fr' \<and>
           stores_below_counter opts fr'"
proof -
  have cf: "cell_faces sh cell = map Some (map (\<lambda>fi. faces sh ! fi) cell)"
    using valid by (intro cell_faces_valid) simp
  obtain res calls where
    cp: "cell_pairs r (vertices sh) (cell_faces sh cell) = (res, calls)"
    by (cases "cell_pairs r (vertices sh) (cell_faces sh cell)") auto
  define pairs where "pairs = filter (\<lambda>pair. 1 < length pair)
     (map (\<lambda>fi. fst (face_pair r (vertices sh) (faces sh ! fi))) cell)"
  have res: "res = Inr pairs"
    using cell_pairs_fst[of r "vertices sh" "cell_faces sh cell"] cp
    by (auto simp: cf pairs_def comp_def)
  have lenp: "length pairs \<le> length cell"
    unfolding pairs_def by (rule order_trans[OF length_filter_le]) simp
  have two: "\<forall>pair \<in> set pairs. length pair = 2"
    unfolding pairs_def using valid by fastforce
  show ?thesis
  proof (cases "2 < length pairs")
    case False
    with cp res cap lg show ?thesis by (simp add: slice_cell_def)
  next
    case True
    from link_loop_total obtain lres where lres: "link_loop (tl pairs) (hd pairs) = Some lres"
      by blast
    show ?thesis
    proof (cases lres)
      case None
      with cp res cap lg True lres show ?thesis by (simp add: slice_cell_def)
    next
      case (Some chain)
      from True have "pairs \<noteq> []" by auto
      then have "hd pairs \<in> set pairs" by simp
      with two have "length (hd pairs) = 2" by blast
      with link_loop_length[of "tl pairs" "hd pairs" chain] lres Some
      have len: "length chain = length pairs + 1" using True by simp
      with True have "2 \<le> length chain" by simp
      from emit_cell_ok[OF cap lg this, of e cg ci] obtain fr' where
        "emit_cell e opts cg ci chain fr = Inr fr'" "fr_i fr' = fr_i fr + length chain"
        "frame_capacity opts n fr'" "stores_below_counter opts fr'" by blast
      moreover from len True lenp have "length chain \<le> 2 * length cell" by simp
      ultimately show ?thesis using cp res True lres Some by (simp add: slice_cell_def)
    qed
  qed
qed

lemma slice_cells_bound:
  assumes "\<forall>c \<in> set cs. \<forall>fi \<in> set (fst c). fi < length (faces sh) \<and>
                    length (fst (face_pair r (vertices sh) (faces sh ! fi))) \<le> 2"
    and "frame_capacity opts n fr" and "stores_below_counter opts fr"
  shows "\<exists>fr' calls. slice_cells e opts cg r sh fr cs = Some (Inr fr', calls) \<and>
           fr_i fr' \<le> fr_i fr + 2 * sum_list (map (\<lambda>c. length (fst c)) cs) \<and>
           frame_capacity opts n fr' \<and> stores_below_counter opts fr'"
  using assms
proof (induction cs arbitrary: fr)
  case Nil
  then show ?case by simp
next
  case (Cons c cs)
  obtain cell ci where c: "c = (cell, ci)" by (cases c)
  from Cons.prems(1) c have v: "\<forall>fi \<in> set cell. fi < length (faces sh) \<and>
                    length (fst (face_pair r (vertices sh) (faces sh ! fi))) \<le> 2" by simp
  from slice_cell_bound[OF v Cons.prems(2,3), of e cg ci] obtain fr1 calls1 where
    s1: "slice_cell e opts cg r sh fr (cell, ci) = Some (Inr fr1, calls1)"
    and b1: "fr_i fr1 \<le> fr_i fr + 2 * length cell" and c1: "frame_capacity opts n fr1"
    and l1: "stores_below_counter opts fr1" by blast
  from Cons.prems(1) have "\<forall>c \<in> set cs. \<forall>fi \<in> set (fst c). fi < length (faces sh) \<and>
                    length (fst (face_pair r (vertices sh) (faces sh ! fi))) \<le> 2" by simp
  from Cons.IH[OF this c1 l1] obtain fr' calls' where
    s2: "slice_cells e opts cg r sh fr1 cs = Some (Inr fr', calls')"
    and b2: "fr_i fr' \<le> fr_i fr1 + 2 * sum_list (map (\<lambda>c. length (fst c)) cs)"
    and c2: "frame_capacity opts n fr'" and l2: "stores_below_counter opts fr'" by blast
  from s1 s2 b1 b2 c2 l2 c show ?case by simp
qed

lemma maxPositions_sum: "maxPositions sh = 2 * sum_list (map length (cells sh))"
proof -
  have "foldl (\<lambda>rv c. rv + length c) a cs = a + sum_list (map length cs)" for a and cs :: "nat list list"
    by (induction cs arbitrary: a) simp_all
  then show ?thesis by (simp add: maxPositions_def)
qed

lemma finish_block_ok:
  assumes "has_capacity opts flag n og" and "\<And>g. length (position (attrs g)) = length (position g)"
    and "\<And>g. color (attrs g) = color g"
  shows "\<exists>og'. finish_block opts flag attrs og = Inr og' \<and> has_capacity opts flag n og'"
proof (cases flag)
  case False
  then show ?thesis by (simp add: finish_block_def has_capacity_def)
next
  case True
  with assms(1) obtain g where g: "og = Some g" by (cases og) (simp_all add: has_capacity_def)
  with assms True show ?thesis
    by (cases "color g") (auto simp: finish_block_def has_capacity_def split: if_splits)
qed

lemma finish_ok:
  assumes "frame_capacity (sg_options b) n fr"
  shows "\<exists>b'. finish e b fr = Inr b' \<and> frame_capacity (sg_options b) n (start_frame b') \<and>
           sg_options b' = sg_options b \<and> sg_shape b' = sg_shape b"
proof -
  let ?o = "sg_options b"
  from assms have c: "has_capacity ?o (useFaces ?o) n (fr_geometry fr)"
    "has_capacity ?o (useEdges ?o) n (fr_edgeGeometry fr)"
    "has_capacity ?o (usePoints ?o) n (fr_pointGeometry fr)"
    by (simp_all add: frame_capacity_def)
  from finish_block_ok[OF c(1), of "\<lambda>g. g\<lparr>index := Some (map int (fr_indices fr)),
      normal := Some (computeVertexNormals e (position g) (Some (map int (fr_indices fr))))\<rparr>"]
  obtain g1 where 1: "finish_block ?o (useFaces ?o)
      (\<lambda>g. g\<lparr>index := Some (map int (fr_indices fr)),
             normal := Some (computeVertexNormals e (position g) (Some (map int (fr_indices fr))))\<rparr>)
      (fr_geometry fr) = Inr g1" "has_capacity ?o (useFaces ?o) n g1" by auto
  from finish_block_ok[OF c(2), of "\<lambda>g. g\<lparr>index := Some (map int (fr_edgeIndices fr))\<rparr>"]
  obtain g2 where 2: "finish_block ?o (useEdges ?o)
      (\<lambda>g. g\<lparr>index := Some (map int (fr_edgeIndices fr))\<rparr>) (fr_edgeGeometry fr) = Inr g2"
      "has_capacity ?o (useEdges ?o) n g2" by auto
  from finish_block_ok[OF c(3), of "\<lambda>g. g\<lparr>drawRange := Some (0, fr_i fr)\<rparr>"]
  obtain g3 where 3: "finish_block ?o (usePoints ?o)
      (\<lambda>g. g\<lparr>drawRange := Some (0, fr_i fr)\<rparr>) (fr_pointGeometry fr) = Inr g3"
      "has_capacity ?o (usePoints ?o) n g3" by auto
  from 1 2 3 show ?thesis
    by (simp add: finish_def and_then_def frame_capacity_def start_frame_def)
qed

lemma update_in_bounds:
  assumes tp: "two_point_faces r (sg_shape b)"
    and cap: "frame_capacity (sg_options b) (maxPositions (sg_shape b)) (start_frame b)"
  shows "\<exists>fr calls b'. run_cells e cg r b = Some (Inr fr, calls) \<and>
            fr_i fr \<le> maxPositions (sg_shape b) \<and>
            stores_below_counter (sg_options b) fr \<and>
            list_all (\<lambda>k. k < 3 * maxPositions (sg_shape b)) (fr_stored fr) \<and>
            frame_capacity (sg_options b) (maxPositions (sg_shape b)) fr \<and>
            sg_update e cg r b = Some (Inr b', calls) \<and>
            frame_capacity (sg_options b) (maxPositions (sg_shape b)) (start_frame b') \<and>
            sg_options b' = sg_options b \<and> sg_shape b' = sg_shape b"
proof -
  let ?sh = "sg_shape b"
  let ?o = "sg_options b"
  let ?cs = "zip (cells ?sh) [0..<length (cells ?sh)]"
  have v: "\<forall>c \<in> set ?cs. \<forall>fi \<in> set (fst c). fi < length (faces ?sh) \<and>
                    length (fst (face_pair r (vertices ?sh) (faces ?sh ! fi))) \<le> 2"
    using tp by (auto simp: two_point_faces_def list_all_iff dest!: set_zip_leftD)
  have m: "map (\<lambda>c. length (fst c)) ?cs = map length (cells ?sh)"
    by (rule nth_equalityI) simp_all
  have l0: "stores_below_counter ?o (start_frame b)"
    by (simp add: stores_below_counter_def start_frame_def)
  from slice_cells_bound[OF v cap l0, of e cg] obtain fr calls where
    fr: "slice_cells e ?o cg r ?sh (start_frame b) ?cs = Some (Inr fr, calls)"
    and i: "fr_i fr \<le> fr_i (start_frame b) + 2 * sum_list (map (\<lambda>c. length (fst c)) ?cs)"
    and c: "frame_capacity ?o (maxPositions ?sh) fr"
    and l: "stores_below_counter ?o fr" by blast
  from i m have i': "fr_i fr \<le> maxPositions ?sh"
    by (simp add: maxPositions_sum start_frame_def)
  from l i' have s: "list_all (\<lambda>k. k < 3 * maxPositions ?sh) (fr_stored fr)"
    by (fastforce simp: stores_below_counter_def list_all_iff)
  from finish_ok[OF c, of e] obtain b' where
    b': "finish e b fr = Inr b'" "frame_capacity ?o (maxPositions ?sh) (start_frame b')"
      "sg_options b' = sg_options b" "sg_shape b' = sg_shape b" by blast
  from fr have rc: "run_cells e cg r b = Some (Inr fr, calls)" by (simp add: run_cells_def)
  with b'(1) have "sg_update e cg r b = Some (Inr b', calls)" by (simp add: sg_update_def)
  with rc i' l s c b'(2,3,4) show ?thesis by blast
qed

text \<open>
  C9. The constructor creates the geometry of each kind in use and gives it a position
  array, and a colour array when colours are used, with room for \<open>maxPositions\<close>
  vertices, twice the number of face references of all cells. Whenever the geometries in
  use are there with that room, every face index is in range and every face is cut in at
  most two points, \<^verbatim>\<open>update()\<close> runs through all cells and returns without an error;
  its vertex counter ends at most at \<open>maxPositions\<close>; it has made three stores into
  each array in use for each vertex counted, every one of them at an index below three
  times the final counter, so inside the arrays; and the geometries are still there with
  the same room for the next \<^verbatim>\<open>update()\<close>. So it is for the \<^verbatim>\<open>update()\<close> that ends
  the constructor: the builder it returns has its geometries with that room.
\<close>

theorem slice_writes_in_bounds:
  "maxPositions sh = 2 * sum_list (map length (cells sh)) \<and>
   frame_capacity opts (maxPositions sh) (start_frame (alloc sh opts)) \<and>
   (two_point_faces r (sg_shape b) \<and>
    frame_capacity (sg_options b) (maxPositions (sg_shape b)) (start_frame b) \<longrightarrow>
      (\<exists>fr calls b'. run_cells e cg r b = Some (Inr fr, calls) \<and>
            fr_i fr \<le> maxPositions (sg_shape b) \<and>
            stores_below_counter (sg_options b) fr \<and>
            list_all (\<lambda>k. k < 3 * maxPositions (sg_shape b)) (fr_stored fr) \<and>
            frame_capacity (sg_options b) (maxPositions (sg_shape b)) fr \<and>
            sg_update e cg r b = Some (Inr b', calls) \<and>
            frame_capacity (sg_options b) (maxPositions (sg_shape b)) (start_frame b'))) \<and>
   (two_point_faces r' sh \<longrightarrow>
      (\<exists>b' calls. new_HyperSliceGeometry e' cg' r' sh opts = Some (Inr b', calls) \<and>
            sg_shape b' = sh \<and> sg_options b' = opts \<and>
            frame_capacity opts (maxPositions sh) (start_frame b')))"
proof (intro conjI impI)
  show "maxPositions sh = 2 * sum_list (map length (cells sh))" by (rule maxPositions_sum)
next
  show "frame_capacity opts (maxPositions sh) (start_frame (alloc sh opts))"
    by (simp add: frame_capacity_def start_frame_def alloc_def has_capacity_def initGeometry_def)
next
  assume a: "two_point_faces r (sg_shape b) \<and>
    frame_capacity (sg_options b) (maxPositions (sg_shape b)) (start_frame b)"
  from update_in_bounds[OF conjunct1[OF a] conjunct2[OF a], of e cg]
  show "\<exists>fr calls b'. run_cells e cg r b = Some (Inr fr, calls) \<and>
            fr_i fr \<le> maxPositions (sg_shape b) \<and>
            stores_below_counter (sg_options b) fr \<and>
            list_all (\<lambda>k. k < 3 * maxPositions (sg_shape b)) (fr_stored fr) \<and>
            frame_capacity (sg_options b) (maxPositions (sg_shape b)) fr \<and>
            sg_update e cg r b = Some (Inr b', calls) \<and>
            frame_capacity (sg_options b) (maxPositions (sg_shape b)) (start_frame b')"
    by blast
next
  assume a: "two_point_faces r' sh"
  have f: "sg_shape (alloc sh opts) = sh" "sg_options (alloc sh opts) = opts"
    by (simp_all add: alloc_def)
  have c: "frame_capacity opts (maxPositions sh) (start_frame (alloc sh opts))"
    by (simp add: frame_capacity_def start_frame_def alloc_def has_capacity_def initGeometry_def)
  from update_in_bounds[of r' "alloc sh opts" e' cg'] a c
  show "\<exists>b' calls. new_HyperSliceGeometry e' cg' r' sh opts = Some (Inr b', calls) \<and>
            sg_shape b' = sh \<and> sg_options b' = opts \<and>
            frame_capacity opts (maxPositions sh) (start_frame b')"
    unfolding f new_HyperSliceGeometry_def by blast
qed

lemma tetra_slice_run:
  "map_option (map_prod (map_sum (\<lambda>err. err) (\<lambda>fr. (fr_i fr, fr_stored fr))) (\<lambda>calls. calls))
     (run_cells plain_engine grey cross_cut (alloc tetra default_options)) =
   Some (Inr (5, [0, 1, 2, 3, 4, 5, 6, 7, 8, 9, 10, 11, 12, 13, 14]),
         [(Some 0, Some 1), (Some 1, Some 2), (Some 2, Some 0),
          (Some 0, Some 1), (Some 1, Some 3), (Some 3, Some 0),
          (Some 0, Some 2), (Some 2, Some 3), (Some 3, Some 0),
          (Some 1, Some 2), (Some 2, Some 3), (Some 3, Some 1)])"
  by (simp add: run_cells_def start_frame_def alloc_def tetra_def default_options_def
      cross_cut_def plain_engine_def grey_def slice_cell_def cell_faces_def js_nth_def
      face_pair_def face_edges_def upt_conv_Cons link_loop_Cons link_loop_Nil Let_def
      epsilon_def round64_numeral emit_cell_def emit_point_def emit_block_def write_vertex_def
      and_then_def store3_def store_def initGeometry_def maxPositions_def)

theorem slice_writes_in_bounds_witness:
  "two_point_faces cross_cut (sg_shape (alloc tetra default_options)) \<and>
   frame_capacity (sg_options (alloc tetra default_options))
     (maxPositions (sg_shape (alloc tetra default_options)))
     (start_frame (alloc tetra default_options)) \<and>
   maxPositions (sg_shape (alloc tetra default_options)) = 8 \<and>
   (\<exists>fr calls b'. run_cells plain_engine grey cross_cut (alloc tetra default_options) =
                     Some (Inr fr, calls) \<and>
         fr_i fr = 5 \<and> fr_i fr \<le> 8 \<and>
         fr_stored fr = [0, 1, 2, 3, 4, 5, 6, 7, 8, 9, 10, 11, 12, 13, 14] \<and>
         list_all (\<lambda>k. k < 3 * 8) (fr_stored fr) \<and>
         sg_update plain_engine grey cross_cut (alloc tetra default_options) =
           Some (Inr b', calls)) \<and>
   (\<exists>b' calls. new_HyperSliceGeometry plain_engine grey cross_cut tetra default_options =
                  Some (Inr b', calls) \<and>
         frame_capacity default_options 8 (start_frame b'))"
proof -
  have sh: "sg_shape (alloc tetra default_options) = tetra"
    and o: "sg_options (alloc tetra default_options) = default_options"
    by (simp_all add: alloc_def)
  have h1: "two_point_faces cross_cut (sg_shape (alloc tetra default_options))"
    unfolding sh
    by (simp add: two_point_faces_def tetra_def cross_cut_def face_pair_def face_edges_def
        js_nth_def upt_conv_Cons)
  have m: "maxPositions tetra = 8"
    by (simp add: maxPositions_def tetra_def)
  from slice_writes_in_bounds[of tetra default_options cross_cut "alloc tetra default_options"
      plain_engine grey cross_cut plain_engine grey] h1
  have h2: "frame_capacity default_options 8 (start_frame (alloc tetra default_options))"
    and h3: "\<exists>b' calls. new_HyperSliceGeometry plain_engine grey cross_cut tetra default_options =
                  Some (Inr b', calls) \<and>
         frame_capacity default_options 8 (start_frame b')"
    and "\<exists>fr calls b'. run_cells plain_engine grey cross_cut (alloc tetra default_options) =
                     Some (Inr fr, calls) \<and>
         fr_i fr \<le> 8 \<and> list_all (\<lambda>k. k < 3 * 8) (fr_stored fr) \<and>
         sg_update plain_engine grey cross_cut (alloc tetra default_options) =
           Some (Inr b', calls)"
    unfolding sh o m by blast+
  then obtain fr calls b' where
    r: "run_cells plain_engine grey cross_cut (alloc tetra default_options) = Some (Inr fr, calls)"
    and b: "fr_i fr \<le> 8" "list_all (\<lambda>k. k < 3 * 8) (fr_stored fr)"
      "sg_update plain_engine grey cross_cut (alloc tetra default_options) = Some (Inr b', calls)"
    by blast
  from tetra_slice_run r have "fr_i fr = 5"
    "fr_stored fr = [0, 1, 2, 3, 4, 5, 6, 7, 8, 9, 10, 11, 12, 13, 14]" by simp_all
  with r b have "\<exists>fr calls b'. run_cells plain_engine grey cross_cut (alloc tetra default_options) =
                     Some (Inr fr, calls) \<and>
         fr_i fr = 5 \<and> fr_i fr \<le> 8 \<and>
         fr_stored fr = [0, 1, 2, 3, 4, 5, 6, 7, 8, 9, 10, 11, 12, 13, 14] \<and>
         list_all (\<lambda>k. k < 3 * 8) (fr_stored fr) \<and>
         sg_update plain_engine grey cross_cut (alloc tetra default_options) =
           Some (Inr b', calls)" by blast
  with h1 h2 h3 m show ?thesis unfolding sh o by simp
qed

section \<open>Calls to the projector\<close>

lemma cell_pairs_calls:
  "prefix (snd (cell_pairs r vs fs)) (concat (map (edges_of vs) fs)) \<and>
   (\<not> isl (fst (cell_pairs r vs fs)) \<longrightarrow> snd (cell_pairs r vs fs) = concat (map (edges_of vs) fs))"
  by (induction r vs fs rule: cell_pairs.induct)
    (auto simp: edges_of_def face_pair_def Let_def split: prod.splits sum.splits)

lemma slice_cell_calls:
  assumes "slice_cell e opts cg r sh fr (cell, ci) = Some (res, calls)"
  shows "prefix calls (cell_edges sh cell) \<and> (\<not> isl res \<longrightarrow> calls = cell_edges sh cell)"
proof -
  obtain res0 calls0 where
    cp: "cell_pairs r (vertices sh) (cell_faces sh cell) = (res0, calls0)"
    by (cases "cell_pairs r (vertices sh) (cell_faces sh cell)") auto
  from assms cp have c: "calls = calls0" and r: "\<not> isl res \<longrightarrow> \<not> isl res0"
    by (auto simp: slice_cell_def split: sum.splits if_splits option.splits)
  from cell_pairs_calls[of r "vertices sh" "cell_faces sh cell"] cp c r
  show ?thesis by (simp add: cell_edges_def)
qed

lemma slice_cells_calls:
  "slice_cells e opts cg r sh fr cs = Some (res, calls) \<Longrightarrow>
     prefix calls (concat (map (\<lambda>c. cell_edges sh (fst c)) cs)) \<and>
     (\<not> isl res \<longrightarrow> calls = concat (map (\<lambda>c. cell_edges sh (fst c)) cs))"
proof (induction cs arbitrary: fr res calls)
  case Nil
  then show ?case by simp
next
  case (Cons c cs)
  obtain cell ci where c: "c = (cell, ci)" by (cases c)
  from Cons.prems c obtain res1 calls1 where
    s1: "slice_cell e opts cg r sh fr (cell, ci) = Some (res1, calls1)"
    by (auto split: option.splits)
  note p1 = slice_cell_calls[OF s1]
  show ?case
  proof (cases res1)
    case (Inl err)
    with Cons.prems c s1 have "res = Inl err" "calls = calls1" by simp_all
    with p1 c show ?thesis by (simp add: prefix_prefix)
  next
    case (Inr fr1)
    with Cons.prems c s1 obtain calls2 where
      s2: "slice_cells e opts cg r sh fr1 cs = Some (res, calls2)"
      and cc: "calls = calls1 @ calls2"
      by (auto split: option.splits)
    from p1 Inr have "calls1 = cell_edges sh cell" by simp
    with Cons.IH[OF s2] cc c show ?thesis by simp
  qed
qed

lemma slice_cell_total: "\<exists>res calls. slice_cell e opts cg r sh fr c = Some (res, calls)"
proof -
  obtain cell ci where c: "c = (cell, ci)" by (cases c)
  obtain res0 calls0 where
    cp: "cell_pairs r (vertices sh) (cell_faces sh cell) = (res0, calls0)"
    by (cases "cell_pairs r (vertices sh) (cell_faces sh cell)") auto
  show ?thesis
  proof (cases res0)
    case (Inl err)
    with c cp show ?thesis by (simp add: slice_cell_def)
  next
    case (Inr pairs)
    from link_loop_total obtain lres where "link_loop (tl pairs) (hd pairs) = Some lres" by blast
    with c cp Inr show ?thesis by (cases lres) (simp_all add: slice_cell_def)
  qed
qed

lemma slice_cells_total: "\<exists>res calls. slice_cells e opts cg r sh fr cs = Some (res, calls)"
proof (induction cs arbitrary: fr)
  case Nil
  then show ?case by simp
next
  case (Cons c cs)
  from slice_cell_total[of e opts cg r sh fr c] obtain res1 calls1 where
    s1: "slice_cell e opts cg r sh fr c = Some (res1, calls1)" by blast
  show ?case
  proof (cases res1)
    case (Inl err)
    with s1 show ?thesis by simp
  next
    case (Inr fr1)
    from Cons.IH[of fr1] obtain res2 calls2 where
      "slice_cells e opts cg r sh fr1 cs = Some (res2, calls2)" by blast
    with s1 Inr show ?thesis by simp
  qed
qed

lemma project_all_calls: "snd (project_all r vs) = vs"
  by (induction vs) (auto split: prod.splits)

lemma project_all_points: "fst (project_all r vs) = map (project r) vs"
  by (induction vs) (auto split: prod.splits)

lemma hg_update_calls: "snd (hg_update e r b) = vertices (hg_shape b)"
  using project_all_calls[of r "vertices (hg_shape b)"]
  by (auto simp: hg_update_def split: prod.splits)

lemma sg_update_calls:
  "\<exists>res calls. sg_update e cg r b = Some (res, calls) \<and>
     prefix calls (face_reference_edges (sg_shape b)) \<and>
     (\<not> isl res \<longrightarrow> calls = face_reference_edges (sg_shape b))"
proof -
  let ?sh = "sg_shape b"
  let ?cs = "zip (cells ?sh) [0..<length (cells ?sh)]"
  from slice_cells_total obtain res0 calls where
    s: "slice_cells e (sg_options b) cg r ?sh (start_frame b) ?cs = Some (res0, calls)" by blast
  have m: "map (\<lambda>c. cell_edges ?sh (fst c)) ?cs = map (cell_edges ?sh) (cells ?sh)"
    by (rule nth_equalityI) simp_all
  from slice_cells_calls[OF s] m
  have p: "prefix calls (face_reference_edges ?sh)"
    and q: "\<not> isl res0 \<longrightarrow> calls = face_reference_edges ?sh"
    by (simp_all add: face_reference_edges_def)
  show ?thesis
  proof (cases res0)
    case (Inl err)
    with s p show ?thesis by (simp add: sg_update_def run_cells_def)
  next
    case (Inr fr)
    with s p q show ?thesis by (simp add: sg_update_def run_cells_def)
  qed
qed

text \<open>
  C2, as amended. Every \<^verbatim>\<open>update()\<close> of the cell builder, whether it returns or
  throws, calls \<^verbatim>\<open>project\<close> exactly once on each vertex of the shape, in the order
  of the vertex list. Every \<^verbatim>\<open>update()\<close> of the slice builder ends, and it calls
  \<^verbatim>\<open>slice\<close> at most once for each boundary edge of each face reference of each
  cell: its calls are an initial part of the list of these edges, and the whole list when
  it returns. So an edge on two faces of a cell, or on a face of two cells, is sliced once
  for each of them.
\<close>

theorem calls_per_update:
  "snd (hg_update e r b) = vertices (hg_shape b) \<and>
   (\<exists>res scalls. sg_update e' cg r' sb = Some (res, scalls) \<and>
      prefix scalls (face_reference_edges (sg_shape sb)) \<and>
      (\<not> isl res \<longrightarrow> scalls = face_reference_edges (sg_shape sb)))"
  using hg_update_calls[of e r b] sg_update_calls[of e' cg r' sb] by simp

lemma tetra_slice_calls:
  "map_option (map_prod isl (\<lambda>calls. calls))
     (sg_update plain_engine grey cross_cut (alloc tetra default_options)) =
   Some (False,
         [(Some 0, Some 1), (Some 1, Some 2), (Some 2, Some 0),
          (Some 0, Some 1), (Some 1, Some 3), (Some 3, Some 0),
          (Some 0, Some 2), (Some 2, Some 3), (Some 3, Some 0),
          (Some 1, Some 2), (Some 2, Some 3), (Some 3, Some 1)])"
  by (simp add: sg_update_def finish_def finish_block_def
      run_cells_def start_frame_def alloc_def tetra_def default_options_def
      cross_cut_def plain_engine_def grey_def slice_cell_def cell_faces_def js_nth_def
      face_pair_def face_edges_def upt_conv_Cons link_loop_Cons link_loop_Nil Let_def
      epsilon_def round64_numeral emit_cell_def emit_point_def emit_block_def write_vertex_def
      and_then_def store3_def store_def initGeometry_def maxPositions_def)

lemma tetra_cells_shape: "vertices (hg_shape tetra_cells) = [0, 1, 2, 3]"
  by code_simp

lemma tetra_edges:
  "face_reference_edges (sg_shape (alloc tetra default_options)) =
     [(Some 0, Some 1), (Some 1, Some 2), (Some 2, Some 0),
      (Some 0, Some 1), (Some 1, Some 3), (Some 3, Some 0),
      (Some 0, Some 2), (Some 2, Some 3), (Some 3, Some 0),
      (Some 1, Some 2), (Some 2, Some 3), (Some 3, Some 1)]"
  by (simp add: face_reference_edges_def cell_edges_def edges_of_def cell_faces_def js_nth_def
      face_edges_def alloc_def tetra_def upt_conv_Cons)

text \<open>
  Two builders whose \<^verbatim>\<open>update()\<close> throws: a cell builder with a vertex index out of
  range, and a slice builder with a face index out of range between two faces.
\<close>

lemma throwing_update_calls:
  "hg_update plain_engine rising_cut
     (projr (hg_init plain_engine white
        \<lparr>vertices = [0 :: nat, 1], faces = [[0, 1, 7]], cells = [[0]]\<rparr> default_options)) =
   (Inl TypeError, [0, 1])"
  by code_simp

lemma throwing_update_shape:
  "vertices (hg_shape (projr (hg_init plain_engine white
        \<lparr>vertices = [0 :: nat, 1], faces = [[0, 1, 7]], cells = [[0]]\<rparr> default_options))) = [0, 1]"
  by code_simp

lemma dangling_face_calls:
  "sg_update plain_engine grey cross_cut (alloc (tetra\<lparr>cells := [[0, 9, 1]]\<rparr>) default_options) =
     Some (Inl TypeError, [(Some 0, Some 1), (Some 1, Some 2), (Some 2, Some 0)])"
  by (simp add: sg_update_def run_cells_def start_frame_def alloc_def tetra_def
      default_options_def cross_cut_def slice_cell_def cell_faces_def js_nth_def
      face_pair_def face_edges_def upt_conv_Cons)

theorem calls_per_update_witness:
  "snd (hg_update plain_engine rising_cut tetra_cells) = [0, 1, 2, 3] \<and>
   hg_update plain_engine rising_cut
     (projr (hg_init plain_engine white
        \<lparr>vertices = [0 :: nat, 1], faces = [[0, 1, 7]], cells = [[0]]\<rparr> default_options)) =
   (Inl TypeError,
    vertices (hg_shape (projr (hg_init plain_engine white
        \<lparr>vertices = [0 :: nat, 1], faces = [[0, 1, 7]], cells = [[0]]\<rparr> default_options)))) \<and>
   (\<exists>res. sg_update plain_engine grey cross_cut (alloc tetra default_options) =
             Some (res,
               [(Some 0, Some 1), (Some 1, Some 2), (Some 2, Some 0),
                (Some 0, Some 1), (Some 1, Some 3), (Some 3, Some 0),
                (Some 0, Some 2), (Some 2, Some 3), (Some 3, Some 0),
                (Some 1, Some 2), (Some 2, Some 3), (Some 3, Some 1)]) \<and>
           \<not> isl res) \<and>
   [(Some 0, Some 1), (Some 1, Some 2), (Some 2, Some 0),
    (Some 0, Some 1), (Some 1, Some 3), (Some 3, Some 0),
    (Some 0, Some 2), (Some 2, Some 3), (Some 3, Some 0),
    (Some 1, Some 2), (Some 2, Some 3), (Some 3, Some 1)] =
   face_reference_edges (sg_shape (alloc tetra default_options)) \<and>
   sg_update plain_engine grey cross_cut (alloc (tetra\<lparr>cells := [[0, 9, 1]]\<rparr>) default_options) =
     Some (Inl TypeError, [(Some 0, Some 1), (Some 1, Some 2), (Some 2, Some 0)]) \<and>
   prefix [(Some 0, Some 1), (Some 1, Some 2), (Some 2, Some 0)]
     (face_reference_edges (sg_shape (alloc (tetra\<lparr>cells := [[0, 9, 1]]\<rparr>) default_options)))"
proof -
  let ?bad = "projr (hg_init plain_engine white
        \<lparr>vertices = [0 :: nat, 1], faces = [[0, 1, 7]], cells = [[0]]\<rparr> default_options)"
  from calls_per_update[where e = plain_engine and r = rising_cut and b = tetra_cells
      and e' = plain_engine and cg = grey and r' = cross_cut
      and sb = "alloc tetra default_options"]
  obtain res scalls where
    p: "snd (hg_update plain_engine rising_cut tetra_cells) = vertices (hg_shape tetra_cells)"
    and s: "sg_update plain_engine grey cross_cut (alloc tetra default_options) = Some (res, scalls)"
    and q: "\<not> isl res \<longrightarrow> scalls = face_reference_edges (sg_shape (alloc tetra default_options))"
    by blast
  from tetra_slice_calls s have n: "\<not> isl res" by simp
  from calls_per_update[where e = plain_engine and r = rising_cut and b = ?bad
      and e' = plain_engine and cg = grey and r' = cross_cut
      and sb = "alloc (tetra\<lparr>cells := [[0, 9, 1]]\<rparr>) default_options"]
  obtain res' scalls' where
    p': "snd (hg_update plain_engine rising_cut ?bad) = vertices (hg_shape ?bad)"
    and s': "sg_update plain_engine grey cross_cut
               (alloc (tetra\<lparr>cells := [[0, 9, 1]]\<rparr>) default_options) = Some (res', scalls')"
    and q': "prefix scalls'
               (face_reference_edges (sg_shape (alloc (tetra\<lparr>cells := [[0, 9, 1]]\<rparr>) default_options)))"
    by blast
  from s' dangling_face_calls q'
  have t: "prefix [(Some 0, Some 1), (Some 1, Some 2), (Some 2, Some 0)]
     (face_reference_edges (sg_shape (alloc (tetra\<lparr>cells := [[0, 9, 1]]\<rparr>) default_options)))"
    by simp
  from p' throwing_update_calls
  have h: "hg_update plain_engine rising_cut ?bad = (Inl TypeError, vertices (hg_shape ?bad))"
    by simp
  from n q s tetra_edges p tetra_cells_shape h dangling_face_calls t show ?thesis by simp
qed

text \<open>
  The claim as stated fails on the tetrahedron: its six edges are each on two of the four
  faces, so one \<^verbatim>\<open>update()\<close> makes twelve calls of \<^verbatim>\<open>slice\<close>, two of them on the
  edge from vertex 0 to vertex 1.
\<close>

theorem slice_twice_counterexample:
  "map_option (map_prod isl (\<lambda>calls. calls))
     (sg_update plain_engine grey cross_cut (alloc tetra default_options)) =
   Some (False,
         [(Some 0, Some 1), (Some 1, Some 2), (Some 2, Some 0),
          (Some 0, Some 1), (Some 1, Some 3), (Some 3, Some 0),
          (Some 0, Some 2), (Some 2, Some 3), (Some 3, Some 0),
          (Some 1, Some 2), (Some 2, Some 3), (Some 3, Some 1)]) \<and>
   count_list [(Some 0, Some 1), (Some 1, Some 2), (Some 2, Some 0),
              (Some 0, Some 1), (Some 1, Some 3), (Some 3, Some 0),
              (Some 0, Some 2), (Some 2, Some 3), (Some 3, Some 0),
              (Some 1, Some 2), (Some 2, Some 3), (Some 3, Some 1)]
     (Some (0::nat), Some (1::nat)) = 2"
  using tetra_slice_calls by simp

section \<open>Properties of the cell builder\<close>

lemma and_then_Inr_iff: "and_then m f = Inr y \<longleftrightarrow> (\<exists>x. m = Inr x \<and> f x = Inr y)"
  by (cases m) (simp_all add: and_then_def)

lemma write_positions_length:
  "write_positions e vs vis i arr = Inr arr' \<Longrightarrow> length arr' = length arr"
  by (induction vis arbitrary: i arr) (auto split: option.splits)

lemma update_geometries_fixed:
  "update_geometries e nrm vs vis gs = Inr gs' \<Longrightarrow> map fixed_part gs' = map fixed_part gs"
proof (induction e nrm vs vis gs arbitrary: gs' rule: update_geometries.induct)
  case (1 e nrm vs gs)
  then show ?case by simp
next
  case (2 e nrm vs vi vis)
  then show ?case by simp
next
  case (3 e nrm vs vi vis g gs)
  from "3.prems" obtain arr gs1 where
    w: "write_positions e vs vi 0 (position g) = Inr arr"
    and u: "update_geometries e nrm vs vis gs = Inr gs1"
    and r: "gs' = (if nrm then g\<lparr>position := arr,
                               normal := Some (computeVertexNormals e arr (index g))\<rparr>
                   else g\<lparr>position := arr\<rparr>) # gs1"
    by (auto simp: and_then_Inr_iff)
  from "3.IH"[OF u] write_positions_length[OF w] r show ?case
    by (simp add: fixed_part_def)
qed

lemma update_block_fixed:
  "update_block e flag nrm vs vis gs = Inr gs' \<Longrightarrow>
     map_option (map fixed_part) gs' = map_option (map fixed_part) gs"
  by (auto simp: update_block_def and_then_Inr_iff dest: update_geometries_fixed
      split: if_splits option.splits)

lemma hg_update_fixed:
  "hg_update e r b = (Inr b', calls) \<Longrightarrow>
     topology b' = topology b \<and>
     vertexGeometriesIndices b' = vertexGeometriesIndices b \<and>
     dedupVertexGeometriesIndices b' = dedupVertexGeometriesIndices b \<and>
     hg_shape b' = hg_shape b \<and> hg_options b' = hg_options b"
  by (auto simp: hg_update_def topology_def and_then_Inr_iff dest!: update_block_fixed
      split: prod.splits)

lemma tesselate_fans:
  "\<forall>face \<in> set fs. 2 \<le> length face \<Longrightarrow>
     tesselate (map Some fs) ix f =
       Inr (ix @ concat (map (\<lambda>m. fan (f + sum_list (map length (take m fs))) (length (fs ! m)))
                          [0..<length fs]))"
proof (induction fs arbitrary: ix f)
  case Nil
  then show ?case by simp
next
  case (Cons face fs)
  then show ?case
    by (simp add: map_upt_Suc fan_def add.assoc del: upt_Suc)
qed

lemma map_result_Inr:
  "\<forall>x \<in> set xs. f x = Inr (g x) \<Longrightarrow> map_result f xs = Inr (map g xs)"
  by (induction xs) (simp_all add: and_then_def)

lemma map_result_length: "map_result f xs = Inr ys \<Longrightarrow> length ys = length xs"
  by (induction xs arbitrary: ys) (auto simp: and_then_Inr_iff)

lemma map_result_nth:
  "map_result f xs = Inr ys \<Longrightarrow> n < length xs \<Longrightarrow> f (xs ! n) = Inr (ys ! n)"
proof (induction xs arbitrary: ys n)
  case Nil
  then show ?case by simp
next
  case (Cons x xs)
  then show ?case by (cases n) (auto simp: and_then_Inr_iff)
qed

lemma map_result_ok:
  "\<forall>x \<in> set xs. \<exists>y. f x = Inr y \<Longrightarrow> \<exists>ys. map_result f xs = Inr ys"
  by (induction xs) (auto simp: and_then_def)


lemma write_positions_ok:
  "\<forall>x \<in> set vis. \<exists>k. x = Some k \<and> k < length vs \<Longrightarrow>
     \<exists>arr'. write_positions e vs vis i arr = Inr arr'"
  by (induction vis arbitrary: i arr) (auto simp: js_nth_def)

lemma update_geometries_ok:
  "length vis \<le> length gs \<Longrightarrow>
   \<forall>vi \<in> set vis. \<forall>x \<in> set vi. \<exists>k. x = Some k \<and> k < length vs \<Longrightarrow>
     \<exists>gs'. update_geometries e nrm vs vis gs = Inr gs'"
proof (induction e nrm vs vis gs rule: update_geometries.induct)
  case (1 e nrm vs gs)
  then show ?case by simp
next
  case (2 e nrm vs vi vis)
  then show ?case by simp
next
  case (3 e nrm vs vi vis g gs)
  from "3.prems" write_positions_ok[of vi vs e 0 "position g"]
  obtain arr where w: "write_positions e vs vi 0 (position g) = Inr arr" by auto
  from "3.prems" "3.IH" obtain gs1 where u: "update_geometries e nrm vs vis gs = Inr gs1"
    by auto
  from w u show ?case by (simp add: and_then_def)
qed

lemma update_block_ok:
  assumes "provided flag (length vis) og" and "valid_slots (length vs) vis"
  shows "\<exists>og'. update_block e flag nrm vs vis og = Inr og'"
proof (cases flag)
  case False
  then show ?thesis by (simp add: update_block_def)
next
  case True
  with assms(1) obtain gs where og: "og = Some gs" "length vis \<le> length gs"
    by (auto simp: provided_def)
  from update_geometries_ok[OF og(2), of vs e nrm] assms(2) og(1) True
  show ?thesis by (auto simp: update_block_def and_then_def valid_slots_def)
qed

lemma provided_fixed:
  "map_option (map fixed_part) og' = map_option (map fixed_part) og \<Longrightarrow>
     provided flag n og \<Longrightarrow> provided flag n og'"
proof -
  assume h: "map_option (map fixed_part) og' = map_option (map fixed_part) og"
    and p: "provided flag n og"
  have "map_option length x = map_option length (map_option (map fixed_part) x)"
    for x :: "bufferGeometry list option" by (cases x) simp_all
  with h have "map_option length og' = map_option length og" by metis
  with p show ?thesis by (cases og'; cases og) (auto simp: provided_def)
qed

lemma hg_update_updatable:
  assumes "updatable b"
  shows "\<exists>b' calls. hg_update e r b = (Inr b', calls) \<and> updatable b'"
proof -
  obtain vs calls where pa: "project_all r (vertices (hg_shape b)) = (vs, calls)"
    by (cases "project_all r (vertices (hg_shape b))") auto
  with project_all_points[of r "vertices (hg_shape b)"]
  have lvs: "length vs = length (vertices (hg_shape b))" by simp
  from assms lvs have v1: "valid_slots (length vs) (vertexGeometriesIndices b)"
    and v2: "valid_slots (length vs) (dedupVertexGeometriesIndices b)"
    and p1: "provided (useFaces (hg_options b)) (length (vertexGeometriesIndices b)) (geometries b)"
    and p2: "provided (useEdges (hg_options b)) (length (dedupVertexGeometriesIndices b)) (edgesGeometries b)"
    and p3: "provided (usePoints (hg_options b)) (length (dedupVertexGeometriesIndices b)) (pointsGeometries b)"
    by (simp_all add: updatable_def)
  from update_block_ok[OF p1 v1, where e = e and nrm = True]
  obtain fg where G1: "update_block e (useFaces (hg_options b)) True vs
      (vertexGeometriesIndices b) (geometries b) = Inr fg" by blast
  from update_block_ok[OF p2 v2, where e = e and nrm = False]
  obtain eg where G2: "update_block e (useEdges (hg_options b)) False vs
      (dedupVertexGeometriesIndices b) (edgesGeometries b) = Inr eg" by blast
  from update_block_ok[OF p3 v2, where e = e and nrm = False]
  obtain pg where G3: "update_block e (usePoints (hg_options b)) False vs
      (dedupVertexGeometriesIndices b) (pointsGeometries b) = Inr pg" by blast
  have G: "hg_update e r b =
             (Inr (b\<lparr>geometries := fg, edgesGeometries := eg, pointsGeometries := pg\<rparr>), calls)"
    by (simp add: hg_update_def pa G1 G2 G3 and_then_def)
  moreover have "updatable (b\<lparr>geometries := fg, edgesGeometries := eg, pointsGeometries := pg\<rparr>)"
    using assms provided_fixed[OF update_block_fixed[OF G1] p1]
      provided_fixed[OF update_block_fixed[OF G2] p2]
      provided_fixed[OF update_block_fixed[OF G3] p3]
    by (simp add: updatable_def)
  ultimately show ?thesis by blast
qed

lemma face_colors_ok:
  "\<forall>x \<in> set xs. fst x \<noteq> None \<Longrightarrow> \<exists>arr'. face_colors e cc ci xs pos arr = Inr arr'"
proof (induction xs arbitrary: pos arr)
  case Nil
  then show ?case by simp
next
  case (Cons x xs)
  then obtain face fi where x: "x = (Some face, fi)" by (cases x) auto
  with Cons show ?case by (auto split: prod.splits)
qed

lemma color_faces_ok:
  assumes "color g \<noteq> None" and "\<forall>fi \<in> set cell. fi < length (faces sh)"
  shows "\<exists>c. color_faces e cc sh ((cell, ci), g) = Inr (g\<lparr>color := Some c\<rparr>)"
proof -
  from assms(1) obtain arr where arr: "color g = Some arr" by auto
  have "\<forall>x \<in> set (zip (cell_faces sh cell) [0..<length cell]). fst x \<noteq> None"
    using assms(2) by (auto simp: cell_faces_def js_nth_def dest!: set_zip_leftD)
  from face_colors_ok[OF this, of e cc ci 0 arr] arr show ?thesis
    by (auto simp: color_faces_def and_then_def)
qed

lemma color_vertices_ok:
  "color g \<noteq> None \<Longrightarrow> \<exists>c. color_vertices e cc kind ((vi, ci), g) = Inr (g\<lparr>color := Some c\<rparr>)"
  by (auto simp: color_vertices_def)

lemma color_stage_ok:
  assumes st: "staged opts flag (length xs) og"
    and f: "\<And>x g. x \<in> set xs \<Longrightarrow> color g \<noteq> None \<Longrightarrow> \<exists>c. f (x, g) = Inr (g\<lparr>color := Some c\<rparr>)"
  shows "\<exists>og'. color_stage e cc (useColors opts \<and> flag) f xs og = Inr og' \<and>
           staged opts flag (length xs) og' \<and>
           map_option (map index) og' = map_option (map index) og"
proof (cases "useColors opts \<and> flag")
  case False
  with st show ?thesis by (auto simp: color_stage_def)
next
  case True
  with st obtain gs where og: "og = Some gs" "length gs = length xs"
    and col: "\<forall>g \<in> set gs. color g \<noteq> None" by (auto simp: staged_def)
  have "\<forall>p \<in> set (zip xs gs). \<exists>y. f p = Inr y"
  proof
    fix p assume p: "p \<in> set (zip xs gs)"
    obtain x g where xg: "p = (x, g)" by (cases p)
    with p have "x \<in> set xs" "g \<in> set gs" by (auto dest: set_zip_leftD set_zip_rightD)
    with f[of x g] col xg show "\<exists>y. f p = Inr y" by auto
  qed
  from map_result_ok[OF this] obtain ys where ys: "map_result f (zip xs gs) = Inr ys" by blast
  from map_result_length[OF ys] og(2) have len: "length ys = length xs" by simp
  have each: "\<exists>c. ys ! n = (gs ! n)\<lparr>color := Some c\<rparr>" if "n < length xs" for n
  proof -
    from that og(2) have "f (xs ! n, gs ! n) = Inr (ys ! n)"
      using map_result_nth[OF ys, of n] by simp
    moreover from that og(2) col f[of "xs ! n" "gs ! n"]
    obtain c where "f (xs ! n, gs ! n) = Inr ((gs ! n)\<lparr>color := Some c\<rparr>)" by auto
    ultimately have "ys ! n = (gs ! n)\<lparr>color := Some c\<rparr>" by simp
    then show ?thesis by blast
  qed
  have ix: "map index ys = map index gs"
  proof (rule nth_equalityI)
    show "length (map index ys) = length (map index gs)" using len og(2) by simp
  next
    fix n assume "n < length (map index ys)"
    with len each[of n] og(2) show "map index ys ! n = map index gs ! n" by auto
  qed
  have "\<forall>g \<in> set ys. color g \<noteq> None"
  proof
    fix g assume "g \<in> set ys"
    then obtain n where "n < length ys" "g = ys ! n" by (auto simp: in_set_conv_nth)
    with len each[of n] show "color g \<noteq> None" by auto
  qed
  with True ys og len ix show ?thesis
    by (auto simp: color_stage_def and_then_def staged_def)
qed


lemma edge_indices_ok: "\<exists>ix. edge_indices (map Some fs) vi acc = Inr ix"
  by (induction fs arbitrary: acc) simp_all

lemma set_new_Set: "set (new_Set seen xs) = set seen \<union> set xs"
  by (induction xs arbitrary: seen) auto

lemma fixed_part_index:
  "map_option (map fixed_part) a = map_option (map fixed_part) b \<Longrightarrow>
     map_option (map index) a = map_option (map index) b"
proof -
  assume h: "map_option (map fixed_part) a = map_option (map fixed_part) b"
  have "map_option (map index) x = map_option (map (\<lambda>p. fst (snd (snd p)))) (map_option (map fixed_part) x)"
    for x by (cases x) (simp_all add: fixed_part_def)
  with h show ?thesis by metis
qed

lemma staged_init:
  assumes "flag \<Longrightarrow> og = Some gs \<and> length gs = n \<and>
             (\<forall>g \<in> set gs. \<exists>k ix. g = (initGeometry opts k)\<lparr>index := ix\<rparr>)"
    and "\<not> flag \<Longrightarrow> og = None"
  shows "staged opts flag n og"
proof (cases flag)
  case False
  with assms(2) show ?thesis by (simp add: staged_def)
next
  case True
  with assms(1) have og: "og = Some gs" "length gs = n"
    and each: "\<forall>g \<in> set gs. \<exists>k ix. g = (initGeometry opts k)\<lparr>index := ix\<rparr>" by auto
  have "color g \<noteq> None" if "useColors opts" "g \<in> set gs" for g
  proof -
    from each that(2) obtain k ix where "g = (initGeometry opts k)\<lparr>index := ix\<rparr>" by blast
    with that(1) show ?thesis by (simp add: initGeometry_def)
  qed
  with True og show ?thesis by (auto simp: staged_def)
qed

lemma flat_valid:
  assumes "\<forall>fi \<in> set cell. fi < length (faces sh) \<and>
             (\<forall>k \<in> set (faces sh ! fi). k < length (vertices sh))"
  shows "\<forall>x \<in> set (flat (cell_faces sh cell)). \<exists>k. x = Some k \<and> k < length (vertices sh)"
  using assms by (auto simp: flat_def cell_faces_def js_nth_def)

lemma init_ok:
  assumes acc: "accepted sh"
  shows "\<exists>b. hg_init e cc sh opts = Inr b \<and> updatable b \<and>
           (useFaces opts \<longrightarrow>
              map_option (map index) (geometries b) =
                Some (map (\<lambda>cell. Some (map int (cell_triangles (map (\<lambda>fi. faces sh ! fi) cell))))
                       (cells sh)))"
proof -
  define vgi where "vgi = map (\<lambda>cell. flat (cell_faces sh cell)) (cells sh)"
  define dvgi where "dvgi = map (new_Set []) vgi"
  let ?n = "length (cells sh)"
  have lv: "length vgi = ?n" "length dvgi = ?n" by (simp_all add: vgi_def dvgi_def)
  let ?tri = "\<lambda>cell. Some (map int (cell_triangles (map (\<lambda>fi. faces sh ! fi) cell)))"
  from acc have vf: "\<forall>cell \<in> set (cells sh). \<forall>fi \<in> set cell. fi < length (faces sh)"
    and f2: "\<forall>cell \<in> set (cells sh). \<forall>fi \<in> set cell. 2 \<le> length (faces sh ! fi)"
    and vv: "\<forall>cell \<in> set (cells sh). \<forall>fi \<in> set cell.
               \<forall>k \<in> set (faces sh ! fi). k < length (vertices sh)"
    by (auto simp: accepted_def list_all_iff)
  \<comment> \<open>the face geometries\<close>
  let ?gA = "\<lambda>(cell, vi). (initGeometry opts (length vi))\<lparr>index := ?tri cell\<rparr>"
  have "\<forall>p \<in> set (zip (cells sh) vgi). init_faces opts sh p = Inr (?gA p)"
  proof
    fix p assume p: "p \<in> set (zip (cells sh) vgi)"
    obtain cell vi where cv: "p = (cell, vi)" by (cases p)
    with p have c: "cell \<in> set (cells sh)" by (auto dest: set_zip_leftD)
    with vf have v: "\<forall>fi \<in> set cell. fi < length (faces sh)" by blast
    have "\<forall>face \<in> set (map (\<lambda>fi. faces sh ! fi) cell). 2 \<le> length face"
      using f2 c by auto
    from tesselate_fans[OF this, of "[]" 0] cell_faces_valid[OF v] cv
    show "init_faces opts sh p = Inr (?gA p)"
      by (simp add: init_faces_def and_then_def cell_triangles_def)
  qed
  from map_result_Inr[OF this]
  have A: "map_result (init_faces opts sh) (zip (cells sh) vgi) = Inr (map ?gA (zip (cells sh) vgi))" .
  define fg where "fg = (if useFaces opts then Some (map ?gA (zip (cells sh) vgi)) else None)"
  have A': "when_used (useFaces opts) (map_result (init_faces opts sh) (zip (cells sh) vgi)) = Inr fg"
    by (simp add: when_used_def A fg_def and_then_def)
  have sA: "staged opts (useFaces opts) ?n fg"
    by (rule staged_init[where gs = "map ?gA (zip (cells sh) vgi)"]) (auto simp: fg_def lv)
  have iA: "useFaces opts \<Longrightarrow> map_option (map index) fg = Some (map ?tri (cells sh))"
    by (auto simp: fg_def lv intro!: nth_equalityI)
  \<comment> \<open>the edge geometries\<close>
  have eok: "\<forall>p \<in> set (zip (cells sh) dvgi).
               \<exists>ix. init_edges opts sh p = Inr ((initGeometry opts (length (snd p)))\<lparr>index := Some ix\<rparr>)"
  proof
    fix p assume p: "p \<in> set (zip (cells sh) dvgi)"
    obtain cell vi where cv: "p = (cell, vi)" by (cases p)
    with p have c: "cell \<in> set (cells sh)" by (auto dest: set_zip_leftD)
    with vf have v: "\<forall>fi \<in> set cell. fi < length (faces sh)" by blast
    from edge_indices_ok[of "map (\<lambda>fi. faces sh ! fi) cell" vi "[]"] cell_faces_valid[OF v] cv
    show "\<exists>ix. init_edges opts sh p = Inr ((initGeometry opts (length (snd p)))\<lparr>index := Some ix\<rparr>)"
      by (auto simp: init_edges_def and_then_def)
  qed
  then have "\<forall>p \<in> set (zip (cells sh) dvgi). \<exists>y. init_edges opts sh p = Inr y" by blast
  from map_result_ok[OF this] obtain egs where
    B: "map_result (init_edges opts sh) (zip (cells sh) dvgi) = Inr egs" by blast
  define eg where "eg = (if useEdges opts then Some egs else None)"
  have B': "when_used (useEdges opts) (map_result (init_edges opts sh) (zip (cells sh) dvgi)) = Inr eg"
    by (simp add: when_used_def B eg_def and_then_def)
  have sB: "staged opts (useEdges opts) ?n eg"
  proof (rule staged_init[where gs = egs])
    assume "useEdges opts"
    have "\<exists>k ix. g = (initGeometry opts k)\<lparr>index := ix\<rparr>" if "g \<in> set egs" for g
    proof -
      from that obtain m where m: "m < length egs" "g = egs ! m" by (auto simp: in_set_conv_nth)
      from map_result_length[OF B] m have ml: "m < length (zip (cells sh) dvgi)" by simp
      from map_result_nth[OF B ml] eok ml m(2) show ?thesis
        by (metis nth_mem sum.inject(2))
    qed
    with map_result_length[OF B] \<open>useEdges opts\<close> lv
    show "eg = Some egs \<and> length egs = ?n \<and>
          (\<forall>g \<in> set egs. \<exists>k ix. g = (initGeometry opts k)\<lparr>index := ix\<rparr>)"
      by (simp add: eg_def)
  qed (simp add: eg_def)
  \<comment> \<open>the point geometries\<close>
  define pg where "pg = (if usePoints opts
     then Some (map (\<lambda>verticesIndices. initGeometry opts (length verticesIndices)) dvgi) else None)"
  have C': "when_used (usePoints opts)
      (Inr (map (\<lambda>verticesIndices. initGeometry opts (length verticesIndices)) dvgi)) = Inr pg"
    by (simp add: when_used_def pg_def and_then_def)
  have sC: "staged opts (usePoints opts) ?n pg"
    by (auto simp: staged_def pg_def initGeometry_def lv)
  \<comment> \<open>the colours\<close>
  have lw: "length (with_index (cells sh)) = ?n" "length (with_index dvgi) = ?n"
    by (simp_all add: with_index_def lv)
  have "\<exists>c. color_faces e cc sh (x, g) = Inr (g\<lparr>color := Some c\<rparr>)"
    if "x \<in> set (with_index (cells sh))" "color g \<noteq> None" for x g
  proof -
    obtain cell ci where x: "x = (cell, ci)" by (cases x)
    with that(1) have "cell \<in> set (cells sh)" by (auto simp: with_index_def dest: set_zip_leftD)
    with vf color_faces_ok[OF that(2), of cell sh e cc ci] x show ?thesis by auto
  qed
  from color_stage_ok[of opts "useFaces opts" "with_index (cells sh)" fg "color_faces e cc sh" e cc,
      unfolded lw, OF sA this]
  obtain fg' where D: "color_stage e cc (useColors opts \<and> useFaces opts) (color_faces e cc sh)
      (with_index (cells sh)) fg = Inr fg'"
    and sD: "staged opts (useFaces opts) ?n fg'"
    and iD: "map_option (map index) fg' = map_option (map index) fg" by blast
  have cv: "\<exists>c. color_vertices e cc kind (x, g) = Inr (g\<lparr>color := Some c\<rparr>)"
    if "color g \<noteq> None" for x g kind
    using color_vertices_ok[OF that, of e cc kind "fst x" "snd x"] by simp
  from color_stage_ok[of opts "useEdges opts" "with_index dvgi" eg "color_vertices e cc ''edge''" e cc,
      unfolded lw, OF sB cv]
  obtain eg' where E: "color_stage e cc (useColors opts \<and> useEdges opts) (color_vertices e cc ''edge'')
      (with_index dvgi) eg = Inr eg'"
    and sE: "staged opts (useEdges opts) ?n eg'" by blast
  from color_stage_ok[of opts "usePoints opts" "with_index dvgi" pg "color_vertices e cc ''point''" e cc,
      unfolded lw, OF sC cv]
  obtain pg' where F: "color_stage e cc (useColors opts \<and> usePoints opts) (color_vertices e cc ''point'')
      (with_index dvgi) pg = Inr pg'"
    and sF: "staged opts (usePoints opts) ?n pg'" by blast
  \<comment> \<open>the builder\<close>
  let ?b0 = "\<lparr>hg_shape = sh, hg_options = opts,
              vertexGeometriesIndices = vgi, dedupVertexGeometriesIndices = dvgi,
              geometries = fg', edgesGeometries = eg', pointsGeometries = pg'\<rparr>"
  have v1: "valid_slots (length (vertices sh)) vgi"
  proof -
    have "\<forall>x \<in> set (flat (cell_faces sh cell)). \<exists>k. x = Some k \<and> k < length (vertices sh)"
      if "cell \<in> set (cells sh)" for cell
      using that vf vv by (intro flat_valid) auto
    then show ?thesis unfolding vgi_def valid_slots_def by auto
  qed
  then have v2: "valid_slots (length (vertices sh)) dvgi"
    by (auto simp: dvgi_def set_new_Set valid_slots_def)
  have "updatable ?b0"
    using v1 v2 sD sE sF lv by (auto simp: updatable_def provided_def staged_def)
  moreover have "hg_init e cc sh opts = Inr ?b0"
    unfolding hg_init_def Let_def vgi_def[symmetric] dvgi_def[symmetric]
    by (simp add: A' B' C' D E F and_then_def)
  moreover have "useFaces opts \<Longrightarrow> map_option (map index) fg' = Some (map ?tri (cells sh))"
    using iD iA by simp
  ultimately show ?thesis by simp
qed

lemma construct_ok:
  assumes acc: "accepted sh"
  shows "\<exists>b calls. new_HyperGeometry e cc r sh opts = (Inr b, calls) \<and> updatable b \<and>
           (useFaces opts \<longrightarrow>
              map_option (map index) (geometries b) =
                Some (map (\<lambda>cell. Some (map int (cell_triangles (map (\<lambda>fi. faces sh ! fi) cell))))
                       (cells sh)))"
proof -
  from init_ok[OF acc, of e cc opts] obtain b0 where
    i: "hg_init e cc sh opts = Inr b0" and u: "updatable b0"
    and ix: "useFaces opts \<longrightarrow> map_option (map index) (geometries b0) =
                Some (map (\<lambda>cell. Some (map int (cell_triangles (map (\<lambda>fi. faces sh ! fi) cell))))
                       (cells sh))" by blast
  from hg_update_updatable[OF u, of e r] obtain b calls where
    h: "hg_update e r b0 = (Inr b, calls)" and u': "updatable b" by blast
  from hg_update_fixed[OF h] have "topology b = topology b0" by simp
  then have "map_option (map fixed_part) (geometries b) = map_option (map fixed_part) (geometries b0)"
    by (simp add: topology_def)
  from fixed_part_index[OF this] ix
  have "useFaces opts \<longrightarrow> map_option (map index) (geometries b) =
                Some (map (\<lambda>cell. Some (map int (cell_triangles (map (\<lambda>fi. faces sh ! fi) cell))))
                       (cells sh))" by metis
  moreover have "new_HyperGeometry e cc r sh opts = (Inr b, calls)"
    using i h by (simp add: new_HyperGeometry_def)
  ultimately show ?thesis using u' by blast
qed

lemma well_formed_accepted:
  assumes "well_formed sh"
  shows "accepted sh"
proof -
  from assms have vf: "\<forall>cell \<in> set (cells sh). \<forall>fi \<in> set cell. fi < length (faces sh)"
    and f: "\<forall>face \<in> set (faces sh). 3 \<le> length face \<and> (\<forall>k \<in> set face. k < length (vertices sh))"
    by (auto simp: well_formed_def list_all_iff)
  have "fi < length (faces sh) \<and> 2 \<le> length (faces sh ! fi) \<and>
        (\<forall>k \<in> set (faces sh ! fi). k < length (vertices sh))"
    if "cell \<in> set (cells sh)" "fi \<in> set cell" for cell fi
  proof -
    from vf that have lt: "fi < length (faces sh)" by blast
    then have "faces sh ! fi \<in> set (faces sh)" by simp
    with f lt show ?thesis by fastforce
  qed
  then show ?thesis by (simp add: accepted_def list_all_iff)
qed

subsection \<open>The triangles of a cell\<close>

lemma length_fan: "length (fan f k) = 3 * (k - 2)"
  by (simp add: fan_def length_concat comp_def sum_list_triv)

text \<open>
  C6. The fan of a face of \<open>k\<close> vertices holds \<open>k - 2\<close> triangles. For a well-formed
  shape and a builder with face buffers, the constructor returns, and the index of the
  geometry of each cell is the fans of the cell's faces in their order: the face at
  position \<open>m\<close> of the cell, with \<open>k\<close> vertices, gives the triangles
  \<open>(f, f + j + 1, f + j + 2)\<close> for \<open>j\<close> from \<open>0\<close> to \<open>k - 3\<close>, where \<open>f\<close> is the number
  of vertices of the faces before it, the slot of its first vertex in the cell's
  \<^verbatim>\<open>vertexGeometriesIndices\<close>.
\<close>

theorem fan_triangulation:
  "length (fan f k) = 3 * (k - 2) \<and>
   (well_formed sh \<and> useFaces opts \<longrightarrow>
      (\<exists>b calls. new_HyperGeometry e cc r sh opts = (Inr b, calls) \<and>
         map_option (map index) (geometries b) =
           Some (map (\<lambda>cell. Some (map int (cell_triangles
                                 (map (\<lambda>faceIndex. faces sh ! faceIndex) cell))))
                  (cells sh))))"
proof (intro conjI impI)
  show "length (fan f k) = 3 * (k - 2)" by (rule length_fan)
next
  assume a: "well_formed sh \<and> useFaces opts"
  then have "accepted sh" by (simp add: well_formed_accepted)
  from construct_ok[OF this, of e cc r opts] a
  show "\<exists>b calls. new_HyperGeometry e cc r sh opts = (Inr b, calls) \<and>
         map_option (map index) (geometries b) =
           Some (map (\<lambda>cell. Some (map int (cell_triangles
                                 (map (\<lambda>faceIndex. faces sh ! faceIndex) cell))))
                  (cells sh))"
    by blast
qed

theorem fan_triangulation_witness:
  "well_formed tetra \<and> useFaces default_options \<and>
   (\<exists>b calls. new_HyperGeometry plain_engine white cross_cut tetra default_options = (Inr b, calls) \<and>
      map_option (map index) (geometries b) = Some [Some [0, 1, 2, 3, 4, 5, 6, 7, 8, 9, 10, 11]])"
proof -
  have h1: "well_formed tetra" by (simp add: well_formed_def tetra_def)
  have h2: "useFaces default_options" by (simp add: default_options_def)
  have c: "map (\<lambda>cell. Some (map int (cell_triangles (map (\<lambda>faceIndex. faces tetra ! faceIndex) cell))))
             (cells tetra) = [Some [0, 1, 2, 3, 4, 5, 6, 7, 8, 9, 10, 11]]"
    by (simp add: tetra_def cell_triangles_def fan_def upt_conv_Cons)
  from fan_triangulation[of 0 3 tetra default_options plain_engine white cross_cut] h1 h2 c
  show ?thesis by auto
qed

subsection \<open>What update leaves alone\<close>

lemma hg_updates_ok:
  "updatable b \<Longrightarrow> \<exists>bn. hg_updates e rs b = Inr bn \<and> topology bn = topology b"
proof (induction rs arbitrary: b)
  case Nil
  then show ?case by simp
next
  case (Cons r rs)
  from hg_update_updatable[OF Cons.prems, of e r] obtain b' calls where
    h: "hg_update e r b = (Inr b', calls)" and u: "updatable b'" by blast
  from Cons.IH[OF u] obtain bn where
    n: "hg_updates e rs b' = Inr bn" "topology bn = topology b'" by blast
  from hg_update_fixed[OF h] h n show ?case by (simp add: and_then_def)
qed

text \<open>
  C7. An \<^verbatim>\<open>update()\<close> that returns leaves, in every geometry of the three kinds, the
  size of the position array, the colour array, the index and the draw range as they
  were, and leaves the two index lists of the builder as they were: only the contents of
  the position arrays and the normals change. For a well-formed shape, every run of
  \<^verbatim>\<open>update()\<close> calls on the constructed builder, the projector in any state at each
  call, returns with the same sizes, colours and indices as after construction.
\<close>

theorem update_keeps_topology:
  "(hg_update e r b = (Inr b', calls) \<longrightarrow>
      topology b' = topology b \<and>
      vertexGeometriesIndices b' = vertexGeometriesIndices b \<and>
      dedupVertexGeometriesIndices b' = dedupVertexGeometriesIndices b) \<and>
   (well_formed sh \<and> new_HyperGeometry e cc r0 sh opts = (Inr b0, calls0) \<longrightarrow>
      (\<exists>bn. hg_updates e rs b0 = Inr bn \<and> topology bn = topology b0))"
proof (rule conjI)
  show "hg_update e r b = (Inr b', calls) \<longrightarrow>
      topology b' = topology b \<and>
      vertexGeometriesIndices b' = vertexGeometriesIndices b \<and>
      dedupVertexGeometriesIndices b' = dedupVertexGeometriesIndices b"
    using hg_update_fixed[of e r b b' calls] by simp
next
  show "well_formed sh \<and> new_HyperGeometry e cc r0 sh opts = (Inr b0, calls0) \<longrightarrow>
      (\<exists>bn. hg_updates e rs b0 = Inr bn \<and> topology bn = topology b0)"
  proof
    assume a: "well_formed sh \<and> new_HyperGeometry e cc r0 sh opts = (Inr b0, calls0)"
    then have "accepted sh" by (simp add: well_formed_accepted)
    with a construct_ok[of sh e cc r0 opts] have "updatable b0" by auto
    then show "\<exists>bn. hg_updates e rs b0 = Inr bn \<and> topology bn = topology b0"
      by (rule hg_updates_ok)
  qed
qed

lemma hg_init_fields:
  "hg_init e cc sh opts = Inr b \<Longrightarrow>
     hg_shape b = sh \<and> hg_options b = opts \<and>
     vertexGeometriesIndices b = map (\<lambda>cell. flat (cell_faces sh cell)) (cells sh)"
  by (auto simp: hg_init_def Let_def and_then_Inr_iff)

lemma new_HyperGeometry_fields:
  assumes "new_HyperGeometry e cc r sh opts = (Inr b, calls)"
  shows "hg_shape b = sh \<and> hg_options b = opts"
proof -
  from assms obtain b0 where i: "hg_init e cc sh opts = Inr b0"
    and h: "hg_update e r b0 = (Inr b, calls)"
    by (cases "hg_init e cc sh opts") (auto simp: new_HyperGeometry_def)
  from hg_init_fields[OF i] hg_update_fixed[OF h] show ?thesis by simp
qed

theorem update_keeps_topology_witness:
  "hg_update plain_engine rising_cut
     (projr (fst (new_HyperGeometry plain_engine white cross_cut tetra all_options))) =
   (Inr (projr (fst (hg_update plain_engine rising_cut
          (projr (fst (new_HyperGeometry plain_engine white cross_cut tetra all_options)))))),
    vertices tetra) \<and>
   topology (projr (fst (hg_update plain_engine rising_cut
          (projr (fst (new_HyperGeometry plain_engine white cross_cut tetra all_options)))))) =
   topology (projr (fst (new_HyperGeometry plain_engine white cross_cut tetra all_options))) \<and>
   well_formed tetra \<and>
   new_HyperGeometry plain_engine white cross_cut tetra all_options =
     (Inr (projr (fst (new_HyperGeometry plain_engine white cross_cut tetra all_options))),
      snd (new_HyperGeometry plain_engine white cross_cut tetra all_options)) \<and>
   (\<exists>bn. hg_updates plain_engine [rising_cut, same_cut, cross_cut]
           (projr (fst (new_HyperGeometry plain_engine white cross_cut tetra all_options))) = Inr bn \<and>
         topology bn =
         topology (projr (fst (new_HyperGeometry plain_engine white cross_cut tetra all_options))))"
proof -
  let ?b0 = "projr (fst (new_HyperGeometry plain_engine white cross_cut tetra all_options))"
  let ?c0 = "snd (new_HyperGeometry plain_engine white cross_cut tetra all_options)"
  have wf: "well_formed tetra" by (simp add: well_formed_def tetra_def)
  from construct_ok[OF well_formed_accepted[OF wf], of plain_engine white cross_cut all_options]
  have n: "new_HyperGeometry plain_engine white cross_cut tetra all_options = (Inr ?b0, ?c0)"
    and u: "updatable ?b0" by auto
  from hg_update_updatable[OF u, of plain_engine rising_cut]
  obtain b1 c1 where h: "hg_update plain_engine rising_cut ?b0 = (Inr b1, c1)" by blast
  have sh: "hg_shape ?b0 = tetra"
    using new_HyperGeometry_fields[OF n] by simp
  from h hg_update_calls[of plain_engine rising_cut ?b0] sh
  have h': "hg_update plain_engine rising_cut ?b0 =
              (Inr (projr (fst (hg_update plain_engine rising_cut ?b0))), vertices tetra)"
    by simp
  from update_keeps_topology[of plain_engine rising_cut ?b0
      "projr (fst (hg_update plain_engine rising_cut ?b0))" "vertices tetra"
      tetra white cross_cut all_options ?b0 ?c0 "[rising_cut, same_cut, cross_cut]"] h' wf n
  show ?thesis by simp
qed

subsection \<open>Shapes the constructor rejects\<close>

lemma tesselate_bad:
  "None \<in> set fs \<or> (\<exists>face. Some face \<in> set fs \<and> length face < 2) \<Longrightarrow>
     \<exists>err. tesselate fs ix f = Inl err"
  by (induction fs ix f rule: tesselate.induct) auto

lemma map_result_bad: "x \<in> set xs \<Longrightarrow> f x = Inl err0 \<Longrightarrow> \<exists>err. map_result f xs = Inl err"
  by (induction xs) (auto simp: and_then_def split: sum.splits)

lemma write_positions_bad:
  "x \<in> set vis \<Longrightarrow> x = None \<or> (\<exists>k. x = Some k \<and> length vs \<le> k) \<Longrightarrow>
     \<exists>err. write_positions e vs vis i arr = Inl err"
  by (induction vis arbitrary: i arr) (auto simp: js_nth_def split: option.splits)

lemma update_geometries_bad:
  "vi \<in> set vis \<Longrightarrow> x \<in> set vi \<Longrightarrow> x = None \<or> (\<exists>k. x = Some k \<and> length vs \<le> k) \<Longrightarrow>
     \<exists>err. update_geometries e nrm vs vis gs = Inl err"
proof (induction e nrm vs vis gs rule: update_geometries.induct)
  case (1 e nrm vs gs)
  then show ?case by simp
next
  case (2 e nrm vs vi vis)
  then show ?case by simp
next
  case (3 e nrm vs v vis g gs)
  show ?case
  proof (cases "vi = v")
    case True
    with "3.prems" write_positions_bad[of x v vs e 0 "position g"]
    show ?thesis by (auto simp: and_then_def)
  next
    case False
    with "3.prems" "3.IH" obtain err where "update_geometries e nrm vs vis gs = Inl err" by auto
    then show ?thesis by (auto simp: and_then_def split: sum.splits)
  qed
qed

lemma update_block_bad:
  "vi \<in> set vis \<Longrightarrow> x \<in> set vi \<Longrightarrow> x = None \<or> (\<exists>k. x = Some k \<and> length vs \<le> k) \<Longrightarrow>
     \<exists>err. update_block e True nrm vs vis og = Inl err"
proof -
  assume a: "vi \<in> set vis" "x \<in> set vi" "x = None \<or> (\<exists>k. x = Some k \<and> length vs \<le> k)"
  show ?thesis
  proof (cases og)
    case None
    with a(1) show ?thesis by (auto simp: update_block_def)
  next
    case (Some gs)
    from update_geometries_bad[OF a, of e nrm gs] obtain err where
      "update_geometries e nrm vs vis gs = Inl err" by blast
    with Some show ?thesis by (simp add: update_block_def and_then_def)
  qed
qed

lemma zip_map_mem: "x \<in> set xs \<Longrightarrow> (x, g x) \<in> set (zip xs (map g xs))"
  by (induction xs) auto

lemma init_bad:
  assumes "useFaces opts" and "cell \<in> set (cells sh)" and "faceIndex \<in> set cell"
    and bad: "length (faces sh) \<le> faceIndex \<or> length (faces sh ! faceIndex) < 2"
  shows "\<exists>err. hg_init e cc sh opts = Inl err"
proof -
  let ?vgi = "map (\<lambda>cell. flat (cell_faces sh cell)) (cells sh)"
  have "js_nth (faces sh) faceIndex \<in> set (cell_faces sh cell)"
    using assms(3) by (simp add: cell_faces_def)
  with bad have "None \<in> set (cell_faces sh cell) \<or>
      (\<exists>face. Some face \<in> set (cell_faces sh cell) \<and> length face < 2)"
    by (cases "faceIndex < length (faces sh)") (auto simp: js_nth_def)
  from tesselate_bad[OF this, of "[]" 0] obtain err0 where
    "init_faces opts sh (cell, flat (cell_faces sh cell)) = Inl err0"
    by (auto simp: init_faces_def and_then_def)
  from map_result_bad[where f = "init_faces opts sh" and xs = "zip (cells sh) ?vgi"
      and x = "(cell, flat (cell_faces sh cell))" and ?err0.0 = err0,
      OF zip_map_mem[OF assms(2), of "\<lambda>cell. flat (cell_faces sh cell)"] this]
  obtain err where "map_result (init_faces opts sh) (zip (cells sh) ?vgi) = Inl err" by blast
  with assms(1) have "hg_init e cc sh opts = Inl err"
    by (simp add: hg_init_def Let_def when_used_def and_then_def)
  then show ?thesis by blast
qed

lemma update_bad:
  assumes "useFaces opts" and "cell \<in> set (cells sh)" and "faceIndex \<in> set cell"
    and a: "faceIndex < length (faces sh)" "verticeIndex \<in> set (faces sh ! faceIndex)"
      "length (vertices sh) \<le> verticeIndex"
  shows "\<exists>err. fst (new_HyperGeometry e cc r sh opts) = Inl err"
proof (cases "hg_init e cc sh opts")
  case (Inl err)
  then show ?thesis by (simp add: new_HyperGeometry_def)
next
  case (Inr b0)
  from hg_init_fields[OF Inr] have f: "hg_shape b0 = sh" "hg_options b0 = opts"
    "vertexGeometriesIndices b0 = map (\<lambda>cell. flat (cell_faces sh cell)) (cells sh)"
    by simp_all
  obtain vs calls where pa: "project_all r (vertices sh) = (vs, calls)"
    by (cases "project_all r (vertices sh)") auto
  with project_all_points[of r "vertices sh"] have lvs: "length vs = length (vertices sh)"
    by simp
  have m1: "flat (cell_faces sh cell) \<in> set (vertexGeometriesIndices b0)"
    using assms(2) f(3) by simp
  have "Some (faces sh ! faceIndex) \<in> set (cell_faces sh cell)"
    using assms(3) a by (auto simp: cell_faces_def js_nth_def)
  with a have m2: "Some verticeIndex \<in> set (flat (cell_faces sh cell))"
    by (force simp: flat_def)
  from update_block_bad[OF m1 m2, of vs e True "geometries b0"] a lvs
  obtain err where "update_block e True True vs (vertexGeometriesIndices b0) (geometries b0) = Inl err"
    by auto
  with assms(1) f pa have "fst (hg_update e r b0) = Inl err"
    by (simp add: hg_update_def and_then_def)
  with Inr show ?thesis by (simp add: new_HyperGeometry_def)
qed

lemma not_accepted:
  assumes "\<not> accepted sh"
  shows "\<exists>cell faceIndex. cell \<in> set (cells sh) \<and> faceIndex \<in> set cell \<and>
           (length (faces sh) \<le> faceIndex \<or> length (faces sh ! faceIndex) < 2 \<or>
            (faceIndex < length (faces sh) \<and>
             (\<exists>verticeIndex \<in> set (faces sh ! faceIndex). length (vertices sh) \<le> verticeIndex)))"
proof -
  from assms obtain cell faceIndex where c: "cell \<in> set (cells sh)" "faceIndex \<in> set cell"
    and n: "\<not> (faceIndex < length (faces sh) \<and> 2 \<le> length (faces sh ! faceIndex) \<and>
             (\<forall>verticeIndex \<in> set (faces sh ! faceIndex). verticeIndex < length (vertices sh)))"
    by (auto simp: accepted_def list_all_iff)
  from n have "length (faces sh) \<le> faceIndex \<or> length (faces sh ! faceIndex) < 2 \<or>
            (faceIndex < length (faces sh) \<and>
             (\<exists>verticeIndex \<in> set (faces sh ! faceIndex). length (vertices sh) \<le> verticeIndex))"
    by (auto simp: not_less not_le)
  with c show ?thesis by blast
qed

text \<open>
  C3, as amended. The constructor validates nothing; it fails where a statement of it
  throws. With face buffers in use it returns a builder exactly for the shapes in which
  every face index of every cell is in range and every face a cell refers to has at least
  two vertices, all of them in range. A face of exactly two vertices is among them: its
  fan is empty, it gets no triangle. For every other shape the constructor throws and
  gives no builder: a cell that holds a face index out of range or refers to a face of
  fewer than two vertices makes lines 19 to 154 throw, before \<^verbatim>\<open>update()\<close> is reached
  and before any call of \<^verbatim>\<open>project\<close>; a vertex index out of range makes the constructor
  throw at the latest in the \<^verbatim>\<open>update()\<close> it ends with.
\<close>

theorem bad_face_raises:
  assumes "useFaces opts"
  shows "(accepted sh \<longrightarrow>
            (\<exists>b calls. new_HyperGeometry e cc r sh opts = (Inr b, calls) \<and>
               map_option (map index) (geometries b) =
                 Some (map (\<lambda>cell. Some (map int (cell_triangles
                                       (map (\<lambda>faceIndex. faces sh ! faceIndex) cell))))
                        (cells sh)))) \<and>
         fan f 2 = [] \<and>
         (\<not> accepted sh \<longrightarrow> (\<exists>err. fst (new_HyperGeometry e cc r sh opts) = Inl err)) \<and>
         (cell \<in> set (cells sh) \<and> faceIndex \<in> set cell \<and>
          (length (faces sh) \<le> faceIndex \<or> length (faces sh ! faceIndex) < 2) \<longrightarrow>
            (\<exists>err. hg_init e cc sh opts = Inl err \<and>
                   new_HyperGeometry e cc r sh opts = (Inl err, [])))"
proof (intro conjI impI)
  assume "accepted sh"
  from construct_ok[OF this, of e cc r opts] assms
  show "\<exists>b calls. new_HyperGeometry e cc r sh opts = (Inr b, calls) \<and>
               map_option (map index) (geometries b) =
                 Some (map (\<lambda>cell. Some (map int (cell_triangles
                                       (map (\<lambda>faceIndex. faces sh ! faceIndex) cell))))
                        (cells sh))"
    by blast
next
  show "fan f 2 = []" by (simp add: fan_def)
next
  assume "\<not> accepted sh"
  from not_accepted[OF this] obtain c fi where c: "c \<in> set (cells sh)" "fi \<in> set c"
    and bad: "length (faces sh) \<le> fi \<or> length (faces sh ! fi) < 2 \<or>
            (fi < length (faces sh) \<and>
             (\<exists>verticeIndex \<in> set (faces sh ! fi). length (vertices sh) \<le> verticeIndex))"
    by blast
  show "\<exists>err. fst (new_HyperGeometry e cc r sh opts) = Inl err"
  proof (cases "length (faces sh) \<le> fi \<or> length (faces sh ! fi) < 2")
    case True
    from init_bad[OF assms c True, of e cc] show ?thesis
      by (auto simp: new_HyperGeometry_def)
  next
    case False
    with bad obtain vi where "fi < length (faces sh)" "vi \<in> set (faces sh ! fi)"
      "length (vertices sh) \<le> vi" by blast
    from update_bad[OF assms c this] show ?thesis .
  qed
next
  assume a: "cell \<in> set (cells sh) \<and> faceIndex \<in> set cell \<and>
          (length (faces sh) \<le> faceIndex \<or> length (faces sh ! faceIndex) < 2)"
  then have "cell \<in> set (cells sh)" "faceIndex \<in> set cell"
    "length (faces sh) \<le> faceIndex \<or> length (faces sh ! faceIndex) < 2" by simp_all
  from init_bad[OF assms this, of e cc]
  show "\<exists>err. hg_init e cc sh opts = Inl err \<and> new_HyperGeometry e cc r sh opts = (Inl err, [])"
    by (auto simp: new_HyperGeometry_def)
qed

text \<open>
  The claim as stated fails for a face of two vertices: the constructor returns a builder
  whose face geometry has no triangle.
\<close>

theorem two_vertex_face_counterexample:
  "length (faces digon ! 0) < 3 \<and>
   new_HyperGeometry plain_engine white cross_cut digon default_options =
     (Inr \<lparr>hg_shape = digon, hg_options = default_options,
           vertexGeometriesIndices = [[Some 0, Some 1]],
           dedupVertexGeometriesIndices = [[Some 0, Some 1]],
           geometries = Some [\<lparr>position = [0, 0, 0, 1, 0, 0], color = None, index = Some [],
                               normal = Some [], drawRange = None\<rparr>],
           edgesGeometries = None, pointsGeometries = None\<rparr>,
      [0, 1])"
  by code_simp

theorem bad_face_raises_witness:
  "useFaces default_options \<and>
   accepted \<lparr>vertices = [0 :: nat, 1, 2], faces = [[0, 1], [0, 1, 2]], cells = [[0, 1]]\<rparr> \<and>
   (\<exists>b calls. new_HyperGeometry plain_engine white cross_cut
                \<lparr>vertices = [0, 1, 2], faces = [[0, 1], [0, 1, 2]], cells = [[0, 1]]\<rparr>
                default_options = (Inr b, calls) \<and>
      map_option (map index) (geometries b) = Some [Some [2, 3, 4]]) \<and>
   \<not> accepted \<lparr>vertices = [0 :: nat, 1], faces = [[0]], cells = [[0]]\<rparr> \<and>
   [0] \<in> set (cells \<lparr>vertices = [0 :: nat, 1], faces = [[0 :: nat]], cells = [[0]]\<rparr>) \<and>
   length (faces \<lparr>vertices = [0 :: nat, 1], faces = [[0]], cells = [[0]]\<rparr> ! 0) < 2 \<and>
   hg_init plain_engine white \<lparr>vertices = [0 :: nat, 1], faces = [[0]], cells = [[0]]\<rparr>
     default_options = Inl RangeError \<and>
   new_HyperGeometry plain_engine white cross_cut
     \<lparr>vertices = [0, 1], faces = [[0]], cells = [[0]]\<rparr> default_options = (Inl RangeError, []) \<and>
   \<not> accepted \<lparr>vertices = [0 :: nat, 1], faces = [[0, 1, 7]], cells = [[0]]\<rparr> \<and>
   new_HyperGeometry plain_engine white cross_cut
     \<lparr>vertices = [0, 1], faces = [[0, 1, 7]], cells = [[0]]\<rparr> default_options =
     (Inl TypeError, [0, 1])"
proof -
  let ?s0 = "\<lparr>vertices = [0 :: nat, 1, 2], faces = [[0, 1], [0, 1, 2]], cells = [[0, 1]]\<rparr>"
  let ?s1 = "\<lparr>vertices = [0 :: nat, 1], faces = [[0]], cells = [[0]]\<rparr>"
  let ?s2 = "\<lparr>vertices = [0 :: nat, 1], faces = [[0, 1, 7]], cells = [[0]]\<rparr>"
  have u: "useFaces default_options" by (simp add: default_options_def)
  have a0: "accepted ?s0" by (simp add: accepted_def)
  have a1: "\<not> accepted ?s1" by (simp add: accepted_def)
  have a2: "\<not> accepted ?s2" by (simp add: accepted_def)
  have c0: "map (\<lambda>cell. Some (map int (cell_triangles (map (\<lambda>faceIndex. faces ?s0 ! faceIndex) cell))))
              (cells ?s0) = [Some [2, 3, 4]]"
    by (simp add: cell_triangles_def fan_def upt_conv_Cons)
  have c1: "[0] \<in> set (cells ?s1) \<and> (0::nat) \<in> set [0] \<and> length (faces ?s1 ! 0) < 2" by simp
  have i1: "hg_init plain_engine white ?s1 default_options = Inl RangeError"
    by (simp add: hg_init_def Let_def and_then_def when_used_def default_options_def
        cell_faces_def js_nth_def flat_def init_faces_def)
  have n2: "new_HyperGeometry plain_engine white cross_cut ?s2 default_options =
              (Inl TypeError, [0, 1])"
    by code_simp
  from bad_face_raises[OF u, where sh = ?s0 and e = plain_engine and cc = white and r = cross_cut]
    a0 c0
  have r0: "\<exists>b calls. new_HyperGeometry plain_engine white cross_cut ?s0 default_options =
                        (Inr b, calls) \<and>
      map_option (map index) (geometries b) = Some [Some [2, 3, 4]]"
    by simp
  from bad_face_raises[OF u, where sh = ?s1 and e = plain_engine and cc = white and r = cross_cut
      and cell = "[0]" and faceIndex = 0] a1 c1 i1
  have r1: "new_HyperGeometry plain_engine white cross_cut ?s1 default_options =
              (Inl RangeError, [])"
    by auto
  from bad_face_raises[OF u, where sh = ?s2 and e = plain_engine and cc = white and r = cross_cut]
    a2 n2
  have r2: "\<exists>err. fst (new_HyperGeometry plain_engine white cross_cut ?s2 default_options) = Inl err"
    by simp
  from u a0 r0 a1 c1 i1 r1 a2 n2 show ?thesis by simp
qed

section \<open>Calling update twice\<close>

lemma write_positions_writes:
  "write_positions e vs vis i arr = Inr arr' \<Longrightarrow>
     \<exists>ws. \<forall>a. write_positions e vs vis i a = Inr (apply_writes ws a)"
proof (induction vis arbitrary: i arr arr')
  case Nil
  have "\<forall>a. write_positions e vs [] i a = Inr (apply_writes [] a)" by simp
  then show ?case by blast
next
  case (Cons vi vis)
  from Cons.prems obtain p where p: "(case vi of None \<Rightarrow> None | Some k \<Rightarrow> js_nth vs k) = Some p"
    and r: "write_positions e vs vis (i + 1) (put3 e i p arr) = Inr arr'"
    by (auto split: option.splits)
  from Cons.IH[OF r] obtain ws where
    ws: "\<forall>a. write_positions e vs vis (i + 1) a = Inr (apply_writes ws a)" by blast
  have "\<forall>a. write_positions e vs (vi # vis) i a = Inr (apply_writes (put3_writes e i p @ ws) a)"
    using p ws by (simp add: put3_writes)
  then show ?case by blast
qed

lemma write_positions_idem:
  assumes "write_positions e vs vis i arr = Inr arr'"
  shows "write_positions e vs vis i arr' = Inr arr'"
proof -
  from write_positions_writes[OF assms] obtain ws where
    ws: "\<forall>a. write_positions e vs vis i a = Inr (apply_writes ws a)" by blast
  with assms have "arr' = apply_writes ws arr" by simp
  with ws show ?thesis by (simp add: apply_writes_idem)
qed

lemma update_geometries_idem:
  "update_geometries e nrm vs vis gs = Inr gs' \<Longrightarrow> update_geometries e nrm vs vis gs' = Inr gs'"
proof (induction e nrm vs vis gs arbitrary: gs' rule: update_geometries.induct)
  case (1 e nrm vs gs)
  then show ?case by simp
next
  case (2 e nrm vs vi vis)
  then show ?case by simp
next
  case (3 e nrm vs vi vis g gs)
  from "3.prems" obtain arr gs1 where
    w: "write_positions e vs vi 0 (position g) = Inr arr"
    and u: "update_geometries e nrm vs vis gs = Inr gs1"
    and r: "gs' = (if nrm then g\<lparr>position := arr,
                               normal := Some (computeVertexNormals e arr (index g))\<rparr>
                   else g\<lparr>position := arr\<rparr>) # gs1"
    by (auto simp: and_then_Inr_iff)
  from write_positions_idem[OF w] "3.IH"[OF u] r show ?case
    by (simp add: and_then_def)
qed

lemma update_block_idem:
  "update_block e flag nrm vs vis og = Inr og' \<Longrightarrow> update_block e flag nrm vs vis og' = Inr og'"
  by (auto simp: update_block_def and_then_Inr_iff dest: update_geometries_idem
      split: if_splits option.splits)

lemma hg_update_idem:
  assumes "hg_update e r b = (Inr b1, calls)"
  shows "hg_update e r b1 = (Inr b1, calls)"
proof -
  obtain vs cs where pa: "project_all r (vertices (hg_shape b)) = (vs, cs)"
    by (cases "project_all r (vertices (hg_shape b))") auto
  from assms pa obtain fg eg pg where
    G1: "update_block e (useFaces (hg_options b)) True vs (vertexGeometriesIndices b) (geometries b) = Inr fg"
    and G2: "update_block e (useEdges (hg_options b)) False vs (dedupVertexGeometriesIndices b) (edgesGeometries b) = Inr eg"
    and G3: "update_block e (usePoints (hg_options b)) False vs (dedupVertexGeometriesIndices b) (pointsGeometries b) = Inr pg"
    and b1: "b1 = b\<lparr>geometries := fg, edgesGeometries := eg, pointsGeometries := pg\<rparr>"
    and c: "calls = cs"
    by (auto simp: hg_update_def and_then_Inr_iff)
  from update_block_idem[OF G1] update_block_idem[OF G2] update_block_idem[OF G3] pa b1 c
  show ?thesis by (simp add: hg_update_def and_then_def)
qed

text \<open>
  The slice builder. What a run over the cells does to a frame does not depend on what
  the arrays of the three geometries hold, only on which of them are there: among the
  frames whose geometries can all be stored into, and among those where one cannot, the
  outcome is the same, and the geometries it leaves are the ones it was given with a
  fixed list of writes applied.
\<close>

lemma emit_point_indep:
  "\<exists>W res. \<forall>G. usable opts G = u \<longrightarrow>
      emit_point e opts cg ci (set_geoms fr G) x =
        map_sum (\<lambda>err. err) (\<lambda>fr'. set_geoms fr' (stamps W G)) res"
proof -
  obtain p pairIndex where x: "x = (p, pairIndex)" by (cases x)
  show ?thesis
  proof (cases u)
    case True
    have "\<forall>G. usable opts G = u \<longrightarrow>
      emit_point e opts cg ci (set_geoms fr G) x =
        map_sum (\<lambda>err. err)
          (\<lambda>fr'. set_geoms fr' (stamps (point_writes e opts cg ci (fr_i fr) p pairIndex) G))
          (Inr (fr\<lparr>fr_stored := fr_stored fr @ point_slots opts (fr_i fr), fr_i := fr_i fr + 1\<rparr>))"
      using True by (simp add: x emit_point_stamp)
    then show ?thesis by blast
  next
    case False
    have "\<forall>G. usable opts G = u \<longrightarrow>
      emit_point e opts cg ci (set_geoms fr G) x =
        map_sum (\<lambda>err. err) (\<lambda>fr'. set_geoms fr' (stamps no_writes G)) (Inl TypeError)"
      using False by (simp add: x emit_point_stamp)
    then show ?thesis by blast
  qed
qed

lemma emit_points_indep:
  "\<exists>W res. \<forall>G. usable opts G = u \<longrightarrow>
      emit_points e opts cg ci (set_geoms fr G) xs =
        map_sum (\<lambda>err. err) (\<lambda>fr'. set_geoms fr' (stamps W G)) res"
proof (induction xs arbitrary: fr)
  case Nil
  have "\<forall>G. usable opts G = u \<longrightarrow>
      emit_points e opts cg ci (set_geoms fr G) [] =
        map_sum (\<lambda>err. err) (\<lambda>fr'. set_geoms fr' (stamps no_writes G)) (Inr fr)"
    by simp
  then show ?case by blast
next
  case (Cons x xs)
  from emit_point_indep[of opts u e cg ci fr x] obtain W1 res1 where
    1: "\<forall>G. usable opts G = u \<longrightarrow>
      emit_point e opts cg ci (set_geoms fr G) x =
        map_sum (\<lambda>err. err) (\<lambda>fr'. set_geoms fr' (stamps W1 G)) res1" by blast
  show ?case
  proof (cases res1)
    case (Inl err)
    with 1 have "\<forall>G. usable opts G = u \<longrightarrow>
      emit_points e opts cg ci (set_geoms fr G) (x # xs) =
        map_sum (\<lambda>err. err) (\<lambda>fr'. set_geoms fr' (stamps W1 G)) (Inl err)"
      by (simp add: and_then_def)
    then show ?thesis by blast
  next
    case (Inr fr1)
    from Cons.IH[of fr1] obtain W2 res2 where
      2: "\<forall>G. usable opts G = u \<longrightarrow>
        emit_points e opts cg ci (set_geoms fr1 G) xs =
          map_sum (\<lambda>err. err) (\<lambda>fr'. set_geoms fr' (stamps W2 G)) res2" by blast
    have "\<forall>G. usable opts G = u \<longrightarrow>
      emit_points e opts cg ci (set_geoms fr G) (x # xs) =
        map_sum (\<lambda>err. err) (\<lambda>fr'. set_geoms fr' (stamps (then_writes W1 W2) G)) res2"
    proof (intro allI impI)
      fix G :: geoms
      assume g: "usable opts G = u"
      then have g': "usable opts (stamps W1 G) = u" by simp
      from 1[rule_format, OF g] 2[rule_format, OF g'] Inr
      show "emit_points e opts cg ci (set_geoms fr G) (x # xs) =
        map_sum (\<lambda>err. err) (\<lambda>fr'. set_geoms fr' (stamps (then_writes W1 W2) G)) res2"
        by (simp add: and_then_def stamps_stamps)
    qed
    then show ?thesis by blast
  qed
qed

lemma emit_cell_indep:
  "\<exists>W res. \<forall>G. usable opts G = u \<longrightarrow>
      emit_cell e opts cg ci chain (set_geoms fr G) =
        map_sum (\<lambda>err. err) (\<lambda>fr'. set_geoms fr' (stamps W G)) res"
proof (cases "useFaces opts \<and> length chain < 2")
  case True
  then have "\<forall>G. usable opts G = u \<longrightarrow>
      emit_cell e opts cg ci chain (set_geoms fr G) =
        map_sum (\<lambda>err. err) (\<lambda>fr'. set_geoms fr' (stamps no_writes G)) (Inl RangeError)"
    by (simp add: emit_cell_def)
  then show ?thesis by blast
next
  case False
  define fr1 where "fr1 = (if useFaces opts
     then fr\<lparr>fr_indices := fr_indices fr @
              concat (map (\<lambda>j. [fr_i fr, fr_i fr + j + 1, fr_i fr + j + 2]) [0..<length chain - 2])\<rparr>
     else fr)"
  define fr2 where "fr2 = (if useEdges opts
     then fr1\<lparr>fr_edgeIndices := fr_edgeIndices fr1 @
              concat (map (\<lambda>j. [fr_i fr + j, fr_i fr + ((j + 1) mod length chain)]) [0..<length chain])\<rparr>
     else fr1)"
  have eq: "emit_cell e opts cg ci chain (set_geoms fr G) =
            emit_points e opts cg ci (set_geoms fr2 G) (zip chain [0..<length chain])" for G
    using False unfolding fr1_def fr2_def
    by (cases "useFaces opts"; cases "useEdges opts") (simp_all add: emit_cell_def Let_def)
  from emit_points_indep[of opts u e cg ci fr2 "zip chain [0..<length chain]"] obtain W res where
    w: "\<forall>G. usable opts G = u \<longrightarrow>
      emit_points e opts cg ci (set_geoms fr2 G) (zip chain [0..<length chain]) =
        map_sum (\<lambda>err. err) (\<lambda>fr'. set_geoms fr' (stamps W G)) res" by blast
  have "\<forall>G. usable opts G = u \<longrightarrow>
      emit_cell e opts cg ci chain (set_geoms fr G) =
        map_sum (\<lambda>err. err) (\<lambda>fr'. set_geoms fr' (stamps W G)) res"
    unfolding eq using w by blast
  then show ?thesis by blast
qed

lemma slice_cell_indep:
  "\<exists>W res. \<forall>G. usable opts G = u \<longrightarrow>
      slice_cell e opts cg r sh (set_geoms fr G) c =
        lift_frame (\<lambda>fr'. set_geoms fr' (stamps W G)) res"
proof -
  obtain cell ci where c: "c = (cell, ci)" by (cases c)
  obtain res0 calls where
    cp: "cell_pairs r (vertices sh) (cell_faces sh cell) = (res0, calls)"
    by (cases "cell_pairs r (vertices sh) (cell_faces sh cell)") auto
  have same: "\<exists>W res. \<forall>G. usable opts G = u \<longrightarrow>
      slice_cell e opts cg r sh (set_geoms fr G) c =
        lift_frame (\<lambda>fr'. set_geoms fr' (stamps W G)) res"
    if "\<forall>G. slice_cell e opts cg r sh (set_geoms fr G) c = Some (Inr (set_geoms fr G), calls)"
  proof -
    from that have "\<forall>G. usable opts G = u \<longrightarrow>
      slice_cell e opts cg r sh (set_geoms fr G) c =
        lift_frame (\<lambda>fr'. set_geoms fr' (stamps no_writes G)) (Some (Inr fr, calls))"
      by (simp add: lift_frame_def)
    then show ?thesis by blast
  qed
  show ?thesis
  proof (cases res0)
    case (Inl err)
    with c cp have "\<forall>G. usable opts G = u \<longrightarrow>
      slice_cell e opts cg r sh (set_geoms fr G) c =
        lift_frame (\<lambda>fr'. set_geoms fr' (stamps no_writes G)) (Some (Inl err, calls))"
      by (simp add: slice_cell_def lift_frame_def)
    then show ?thesis by blast
  next
    case (Inr pairs)
    show ?thesis
    proof (cases "2 < length pairs")
      case False
      with c cp Inr show ?thesis by (intro same) (simp add: slice_cell_def)
    next
      case True
      show ?thesis
      proof (cases "link_loop (tl pairs) (hd pairs)")
        case None
        with c cp Inr True have "\<forall>G. usable opts G = u \<longrightarrow>
          slice_cell e opts cg r sh (set_geoms fr G) c =
            lift_frame (\<lambda>fr'. set_geoms fr' (stamps no_writes G)) None"
          by (simp add: slice_cell_def lift_frame_def)
        then show ?thesis by blast
      next
        case (Some lres)
        show ?thesis
        proof (cases lres)
          case None
          with c cp Inr True Some show ?thesis by (intro same) (simp add: slice_cell_def)
        next
          case (Some chain)
          from emit_cell_indep[of opts u e cg ci chain fr] obtain W res where
            w: "\<forall>G. usable opts G = u \<longrightarrow>
              emit_cell e opts cg ci chain (set_geoms fr G) =
                map_sum (\<lambda>err. err) (\<lambda>fr'. set_geoms fr' (stamps W G)) res" by blast
          with c cp Inr True \<open>link_loop (tl pairs) (hd pairs) = Some lres\<close> Some
          have "\<forall>G. usable opts G = u \<longrightarrow>
            slice_cell e opts cg r sh (set_geoms fr G) c =
              lift_frame (\<lambda>fr'. set_geoms fr' (stamps W G)) (Some (res, calls))"
            by (simp add: slice_cell_def lift_frame_def)
          then show ?thesis by blast
        qed
      qed
    qed
  qed
qed

lemma slice_cells_indep:
  "\<exists>W res. \<forall>G. usable opts G = u \<longrightarrow>
      slice_cells e opts cg r sh (set_geoms fr G) cs =
        lift_frame (\<lambda>fr'. set_geoms fr' (stamps W G)) res"
proof (induction cs arbitrary: fr)
  case Nil
  have "\<forall>G. usable opts G = u \<longrightarrow>
      slice_cells e opts cg r sh (set_geoms fr G) [] =
        lift_frame (\<lambda>fr'. set_geoms fr' (stamps no_writes G)) (Some (Inr fr, []))"
    by (simp add: lift_frame_def)
  then show ?case by blast
next
  case (Cons c cs)
  from slice_cell_indep[of opts u e cg r sh fr c] obtain W1 res1 where
    1: "\<forall>G. usable opts G = u \<longrightarrow>
      slice_cell e opts cg r sh (set_geoms fr G) c =
        lift_frame (\<lambda>fr'. set_geoms fr' (stamps W1 G)) res1" by blast
  show ?case
  proof (cases res1)
    case None
    with 1 have "\<forall>G. usable opts G = u \<longrightarrow>
      slice_cells e opts cg r sh (set_geoms fr G) (c # cs) =
        lift_frame (\<lambda>fr'. set_geoms fr' (stamps W1 G)) None"
      by (simp add: lift_frame_def)
    then show ?thesis by blast
  next
    case (Some s)
    obtain sres calls1 where s: "s = (sres, calls1)" by (cases s)
    show ?thesis
    proof (cases sres)
      case (Inl err)
      with Some s 1 have "\<forall>G. usable opts G = u \<longrightarrow>
        slice_cells e opts cg r sh (set_geoms fr G) (c # cs) =
          lift_frame (\<lambda>fr'. set_geoms fr' (stamps W1 G)) (Some (Inl err, calls1))"
        by (simp add: lift_frame_def)
      then show ?thesis by blast
    next
      case (Inr fr1)
      from Cons.IH[of fr1] obtain W2 res2 where
        2: "\<forall>G. usable opts G = u \<longrightarrow>
          slice_cells e opts cg r sh (set_geoms fr1 G) cs =
            lift_frame (\<lambda>fr'. set_geoms fr' (stamps W2 G)) res2" by blast
      have "\<forall>G. usable opts G = u \<longrightarrow>
        slice_cells e opts cg r sh (set_geoms fr G) (c # cs) =
          lift_frame (\<lambda>fr'. set_geoms fr' (stamps (then_writes W1 W2) G))
            (map_option (map_prod (\<lambda>res. res) (\<lambda>calls2. calls1 @ calls2)) res2)"
      proof (intro allI impI)
        fix G :: geoms
        assume g: "usable opts G = u"
        then have g': "usable opts (stamps W1 G) = u" by simp
        from 1[rule_format, OF g] 2[rule_format, OF g'] Some s Inr
        show "slice_cells e opts cg r sh (set_geoms fr G) (c # cs) =
          lift_frame (\<lambda>fr'. set_geoms fr' (stamps (then_writes W1 W2) G))
            (map_option (map_prod (\<lambda>res. res) (\<lambda>calls2. calls1 @ calls2)) res2)"
          by (cases res2) (auto simp: lift_frame_def stamps_stamps)
      qed
      then show ?thesis by blast
    qed
  qed
qed

lemma finish_block_idem:
  assumes fb: "finish_block opts flag attrs (stamp w og) = Inr og1"
    and pA: "\<And>g. position (attrs g) = position g"
    and cA: "\<And>g. color (attrs g) = color g"
    and iA: "\<And>g. attrs (attrs g) = attrs g"
  shows "stamp w og1 = og1 \<and> finish_block opts flag attrs og1 = Inr og1 \<and>
         writable opts og1 = writable opts og"
proof (cases flag)
  case False
  with fb have "og1 = stamp w og" by (simp add: finish_block_def)
  with False show ?thesis by (simp add: stamp_idem finish_block_def)
next
  case True
  with fb obtain g where g: "stamp w og = Some g" and ok: "\<not> (useColors opts \<and> color g = None)"
    and og1: "og1 = Some (attrs g)"
    by (cases "stamp w og") (auto simp: finish_block_def split: if_splits)
  from g obtain g0 where g0: "og = Some g0"
    and gg: "g = g0\<lparr>position := apply_writes (fst w) (position g0),
                     color := map_option (apply_writes (snd w)) (color g0)\<rparr>"
    by (cases og) (auto simp: stamp_def)
  have p: "apply_writes (fst w) (position g) = position g"
    by (simp add: gg apply_writes_idem)
  have c: "map_option (apply_writes (snd w)) (color g) = color g"
    by (simp add: gg colors_idem)
  have 1: "stamp w og1 = og1"
    by (simp add: og1 stamp_def pA cA p c)
  have 2: "finish_block opts flag attrs og1 = Inr og1"
    using True ok by (simp add: og1 finish_block_def cA iA)
  have 3: "writable opts og1 = writable opts og"
    by (cases "color g0") (simp_all add: og1 g0 gg writable_def cA)
  from 1 2 3 show ?thesis by simp
qed

lemma lift_frame_Inr:
  "lift_frame f res = Some (Inr fr, calls) \<Longrightarrow> \<exists>fr'. res = Some (Inr fr', calls) \<and> fr = f fr'"
proof -
  assume a: "lift_frame f res = Some (Inr fr, calls)"
  then obtain s c where s: "res = Some (s, c)" by (cases res) (auto simp: lift_frame_def)
  with a show ?thesis by (cases s) (auto simp: lift_frame_def)
qed

lemma sg_update_idem:
  assumes "sg_update e cg r b = Some (Inr b1, calls)"
  shows "sg_update e cg r b1 = Some (Inr b1, calls)"
proof -
  let ?o = "sg_options b"
  let ?cs = "zip (cells (sg_shape b)) [0..<length (cells (sg_shape b))]"
  let ?G = "(geometry b, edgeGeometry b, pointGeometry b)"
  let ?G1 = "(geometry b1, edgeGeometry b1, pointGeometry b1)"
  from slice_cells_indep[of ?o "usable ?o ?G" e cg r "sg_shape b" "start_frame b" ?cs]
  obtain W res where
    w: "\<forall>G. usable ?o G = usable ?o ?G \<longrightarrow>
          slice_cells e ?o cg r (sg_shape b) (set_geoms (start_frame b) G) ?cs =
            lift_frame (\<lambda>fr'. set_geoms fr' (stamps W G)) res" by blast
  have s0: "start_frame b = set_geoms (start_frame b) ?G"
    by (simp add: start_frame_def set_geoms_def)
  from assms obtain fr where rc: "run_cells e cg r b = Some (Inr fr, calls)"
    and fin: "finish e b fr = Inr b1"
    by (auto simp: sg_update_def split: option.splits sum.splits)
  from rc have "slice_cells e ?o cg r (sg_shape b) (set_geoms (start_frame b) ?G) ?cs =
      Some (Inr fr, calls)" using s0 by (simp add: run_cells_def)
  with w[rule_format, of ?G] lift_frame_Inr obtain fr' where
    res: "res = Some (Inr fr', calls)" and fr: "fr = set_geoms fr' (stamps W ?G)" by fastforce
  define A1 where "A1 = (\<lambda>g :: bufferGeometry. g\<lparr>index := Some (map int (fr_indices fr')),
     normal := Some (computeVertexNormals e (position g) (Some (map int (fr_indices fr'))))\<rparr>)"
  define A2 where "A2 = (\<lambda>g :: bufferGeometry. g\<lparr>index := Some (map int (fr_edgeIndices fr'))\<rparr>)"
  define A3 where "A3 = (\<lambda>g :: bufferGeometry. g\<lparr>drawRange := Some (0, fr_i fr')\<rparr>)"
  have finish_eq: "finish e bb (set_geoms fr' GG) =
      and_then (finish_block (sg_options bb) (useFaces (sg_options bb)) A1 (fst GG))
        (\<lambda>g1. and_then (finish_block (sg_options bb) (useEdges (sg_options bb)) A2 (fst (snd GG)))
        (\<lambda>g2. and_then (finish_block (sg_options bb) (usePoints (sg_options bb)) A3 (snd (snd GG)))
        (\<lambda>g3. Inr (bb\<lparr>geometry := g1, edgeGeometry := g2, pointGeometry := g3\<rparr>))))"
    for bb :: "'a hyperSliceGeometry" and GG
    by (simp add: finish_def A1_def A2_def A3_def)
  from fin obtain g1 g2 g3 where
    f1: "finish_block ?o (useFaces ?o) A1 (stamp (fst W) (geometry b)) = Inr g1"
    and f2: "finish_block ?o (useEdges ?o) A2 (stamp (fst (snd W)) (edgeGeometry b)) = Inr g2"
    and f3: "finish_block ?o (usePoints ?o) A3 (stamp (snd (snd W)) (pointGeometry b)) = Inr g3"
    and b1: "b1 = b\<lparr>geometry := g1, edgeGeometry := g2, pointGeometry := g3\<rparr>"
    unfolding fr finish_eq by (auto simp: and_then_Inr_iff stamps_def)
  have i1: "stamp (fst W) g1 = g1 \<and> finish_block ?o (useFaces ?o) A1 g1 = Inr g1 \<and>
            writable ?o g1 = writable ?o (geometry b)"
    by (rule finish_block_idem[OF f1]) (simp_all add: A1_def)
  have i2: "stamp (fst (snd W)) g2 = g2 \<and> finish_block ?o (useEdges ?o) A2 g2 = Inr g2 \<and>
            writable ?o g2 = writable ?o (edgeGeometry b)"
    by (rule finish_block_idem[OF f2]) (simp_all add: A2_def)
  have i3: "stamp (snd (snd W)) g3 = g3 \<and> finish_block ?o (usePoints ?o) A3 g3 = Inr g3 \<and>
            writable ?o g3 = writable ?o (pointGeometry b)"
    by (rule finish_block_idem[OF f3]) (simp_all add: A3_def)
  have same: "sg_shape b1 = sg_shape b" "sg_options b1 = sg_options b"
    and G1: "?G1 = (g1, g2, g3)"
    by (simp_all add: b1)
  have u1: "usable ?o ?G1 = usable ?o ?G"
    unfolding G1 using i1 i2 i3 by (simp add: usable_def)
  have st: "stamps W ?G1 = ?G1"
    unfolding G1 using i1 i2 i3 by (simp add: stamps_def)
  have s1: "start_frame b1 = set_geoms (start_frame b) ?G1"
    by (simp add: start_frame_def set_geoms_def)
  have rc1: "run_cells e cg r b1 = Some (Inr (set_geoms fr' ?G1), calls)"
    using w[rule_format, OF u1] res st by (simp add: run_cells_def same s1 lift_frame_def)
  have fin1: "finish e b1 (set_geoms fr' ?G1) = Inr b1"
    unfolding finish_eq same unfolding G1 using i1 i2 i3 by (simp add: and_then_def b1)
  from rc1 fin1 show ?thesis by (simp add: sg_update_def)
qed

text \<open>
  C8. For both builders, an \<^verbatim>\<open>update()\<close> that returns, called again on the builder it
  left with the projector in the same state, returns that same builder: every position
  array (and every other buffer) holds after the second call what it held after the
  first, and the same calls were made.
\<close>

theorem update_idempotent:
  "(hg_update e r b = (Inr b1, calls) \<longrightarrow> hg_update e r b1 = (Inr b1, calls)) \<and>
   (sg_update e' cg r' sb = Some (Inr sb1, scalls) \<longrightarrow>
      sg_update e' cg r' sb1 = Some (Inr sb1, scalls))"
  using hg_update_idem[of e r b b1 calls] sg_update_idem[of e' cg r' sb sb1 scalls] by blast

lemma tetra_cells_update: "isl (fst (hg_update plain_engine rising_cut tetra_cells)) = False"
  by code_simp

lemma tetra_sg_update:
  "map_option (\<lambda>res. isl (fst res)) (sg_update plain_engine grey cross_cut (alloc tetra all_options)) =
     Some False"
proof -
  have "\<forall>c \<in> set (zip (cells tetra) [0..<length (cells tetra)]). \<forall>fi \<in> set (fst c).
          fi < length (faces tetra) \<and>
          length (fst (face_pair cross_cut (vertices tetra) (faces tetra ! fi))) \<le> 2"
    by (simp add: tetra_def cross_cut_def face_pair_def face_edges_def js_nth_def upt_conv_Cons)
  moreover have "frame_capacity all_options (maxPositions tetra) (start_frame (alloc tetra all_options))"
    by (simp add: frame_capacity_def start_frame_def alloc_def has_capacity_def initGeometry_def
        all_options_def)
  moreover have "stores_below_counter all_options (start_frame (alloc tetra all_options))"
    by (simp add: stores_below_counter_def start_frame_def)
  ultimately obtain fr calls where
    fr: "slice_cells plain_engine all_options grey cross_cut tetra (start_frame (alloc tetra all_options))
       (zip (cells tetra) [0..<length (cells tetra)]) = Some (Inr fr, calls)"
    and c: "frame_capacity all_options (maxPositions tetra) fr"
    using slice_cells_bound by blast
  have "sg_options (alloc tetra all_options) = all_options" by (simp add: alloc_def)
  with finish_ok[of "alloc tetra all_options" "maxPositions tetra" fr plain_engine] c
  obtain b' where "finish plain_engine (alloc tetra all_options) fr = Inr b'" by auto
  with fr show ?thesis by (simp add: sg_update_def run_cells_def alloc_def)
qed

theorem update_idempotent_witness:
  "hg_update plain_engine rising_cut tetra_cells =
     (Inr (projr (fst (hg_update plain_engine rising_cut tetra_cells))),
      snd (hg_update plain_engine rising_cut tetra_cells)) \<and>
   hg_update plain_engine rising_cut (projr (fst (hg_update plain_engine rising_cut tetra_cells))) =
     (Inr (projr (fst (hg_update plain_engine rising_cut tetra_cells))),
      snd (hg_update plain_engine rising_cut tetra_cells)) \<and>
   sg_update plain_engine grey cross_cut (alloc tetra all_options) =
     Some (Inr (projr (fst (the (sg_update plain_engine grey cross_cut (alloc tetra all_options))))),
           snd (the (sg_update plain_engine grey cross_cut (alloc tetra all_options)))) \<and>
   sg_update plain_engine grey cross_cut
     (projr (fst (the (sg_update plain_engine grey cross_cut (alloc tetra all_options))))) =
     Some (Inr (projr (fst (the (sg_update plain_engine grey cross_cut (alloc tetra all_options))))),
           snd (the (sg_update plain_engine grey cross_cut (alloc tetra all_options))))"
proof -
  let ?h = "hg_update plain_engine rising_cut tetra_cells"
  let ?s = "sg_update plain_engine grey cross_cut (alloc tetra all_options)"
  have h1: "?h = (Inr (projr (fst ?h)), snd ?h)"
    using tetra_cells_update by (cases ?h; cases "fst ?h") auto
  have h2: "?s = Some (Inr (projr (fst (the ?s))), snd (the ?s))"
  proof -
    from tetra_sg_update obtain x where x: "?s = Some x" "\<not> isl (fst x)" by auto
    then show ?thesis by (cases x; cases "fst x") auto
  qed
  from update_idempotent[where e = plain_engine and r = rising_cut and b = tetra_cells
      and ?b1.0 = "projr (fst ?h)" and calls = "snd ?h"
      and e' = plain_engine and cg = grey and r' = cross_cut and sb = "alloc tetra all_options"
      and ?sb1.0 = "projr (fst (the ?s))" and scalls = "snd (the ?s)"] h1 h2
  show ?thesis by simp
qed

end
